(* ===== verification/Prelude.thy ===== *)
theory Prelude
  imports Main "HOL-Library.Word" "HOL-Library.Char_ord" "HOL-Library.List_Lexorder"
    "HOL-Library.Sublist"
begin

text \<open>
  What every component shares: the machine integers of a 64-bit Go build, the result type of
  a fallible Go function, the loop that stops at the first error, and the splitting and
  joining of strings at a separator with the lemmas that connect the two.
  The collection \<open>go_result\<close> holds the rules that take a successful result apart,
  \<open>go_loop\<close> the rules that turn a first-error loop into a statement about its elements.
\<close>

named_theorems go_result \<open>what it takes for a fallible computation to succeed\<close>
named_theorems go_loop \<open>first-error loops as statements about the elements\<close>

section \<open>Machine integers\<close>

type_synonym i64 = "64 word"
type_synonym u64 = "64 word"
type_synonym u32 = "32 word"

text \<open>Go's signed comparison with zero, on the two's-complement reading of the word.\<close>

definition nonpos :: "i64 \<Rightarrow> bool" where
  "nonpos v \<longleftrightarrow> sint v \<le> 0"

section \<open>Results\<close>

text \<open>A Go function that returns a value and an error is a sum: \<open>Inl\<close> the error.\<close>

type_synonym ('e, 'a) result = "'e + 'a"

definition bind_result :: "('e, 'a) result \<Rightarrow> ('a \<Rightarrow> ('e, 'b) result) \<Rightarrow> ('e, 'b) result" where
  "bind_result m f = (case m of Inl e \<Rightarrow> Inl e | Inr a \<Rightarrow> f a)"

lemma bind_result_simps [simp]:
  "bind_result (Inl e) f = Inl e"
  "bind_result (Inr a) f = f a"
  by (simp_all add: bind_result_def)

lemma bind_result_Inr [go_result]:
  "bind_result m f = Inr y \<longleftrightarrow> (\<exists>x. m = Inr x \<and> f x = Inr y)"
  by (cases m) simp_all

definition guard_result :: "bool \<Rightarrow> 'e \<Rightarrow> ('e, unit) result" where
  "guard_result ok e = (if ok then Inr () else Inl e)"

lemma guard_result_Inr [go_result]: "guard_result ok e = Inr u \<longleftrightarrow> ok"
  by (simp add: guard_result_def)

section \<open>Loops that stop at the first error\<close>

text \<open>The shape \<^verbatim>\<open>if err := a; err != nil { return err }\<close> followed by \<open>b\<close>.\<close>

definition then_check :: "'e option \<Rightarrow> 'e option \<Rightarrow> 'e option" where
  "then_check a b = (case a of Some e \<Rightarrow> Some e | None \<Rightarrow> b)"

lemma then_check_simps [simp]:
  "then_check None b = b"
  "then_check (Some e) b = Some e"
  by (simp_all add: then_check_def)

lemma then_check_None [go_loop]: "then_check a b = None \<longleftrightarrow> a = None \<and> b = None"
  by (cases a) simp_all

text \<open>
  The shape \<^verbatim>\<open>for _, x := range xs { if err := f(x); err != nil { return err } }\<close>.
\<close>

fun first_error :: "('a \<Rightarrow> 'e option) \<Rightarrow> 'a list \<Rightarrow> 'e option" where
  "first_error f [] = None"
| "first_error f (x # xs) = (case f x of Some e \<Rightarrow> Some e | None \<Rightarrow> first_error f xs)"

lemma first_error_cong [fundef_cong]:
  "xs = ys \<Longrightarrow> (\<And>x. x \<in> set ys \<Longrightarrow> f x = g x) \<Longrightarrow> first_error f xs = first_error g ys"
  by (induction ys arbitrary: xs) (auto split: option.splits)

lemma first_error_None [go_loop]: "first_error f xs = None \<longleftrightarrow> (\<forall>x \<in> set xs. f x = None)"
  by (induction xs) (auto split: option.splits)

lemma first_error_SomeD: "first_error f xs = Some e \<Longrightarrow> \<exists>x \<in> set xs. f x = Some e"
  by (induction xs) (auto split: option.splits)

lemma first_error_append:
  "first_error f (xs @ ys) = (case first_error f xs of Some e \<Rightarrow> Some e | None \<Rightarrow> first_error f ys)"
  by (induction xs) (auto split: option.splits)

text \<open>Whether such a loop fails does not depend on the order of its elements.\<close>

lemma first_error_None_set:
  "set xs = set ys \<Longrightarrow> first_error f xs = None \<longleftrightarrow> first_error f ys = None"
  by (simp add: first_error_None)

section \<open>Splitting at a separator\<close>

fun split_on :: "'a \<Rightarrow> 'a list \<Rightarrow> 'a list list" where
  "split_on c [] = [[]]"
| "split_on c (x # xs) =
     (if x = c then [] # split_on c xs
      else (case split_on c xs of [] \<Rightarrow> [[x]] | w # ws \<Rightarrow> (x # w) # ws))"

fun join_with :: "'a \<Rightarrow> 'a list list \<Rightarrow> 'a list" where
  "join_with c [] = []"
| "join_with c [w] = w"
| "join_with c (w # v # ws) = w @ c # join_with c (v # ws)"

lemma split_on_not_Nil [simp]: "split_on c s \<noteq> []"
  by (cases s) (auto split: list.splits)

lemma split_on_length: "0 < length (split_on c s)"
  by (simp)

lemma join_with_Cons: "ws \<noteq> [] \<Longrightarrow> join_with c (w # ws) = w @ c # join_with c ws"
  by (cases ws) simp_all

lemma join_with_head: "join_with c ((x # w) # ws) = x # join_with c (w # ws)"
  by (cases ws) simp_all

lemma join_split [simp]: "join_with c (split_on c s) = s"
proof (induction s)
  case Nil
  then show ?case by simp
next
  case (Cons x xs)
  show ?case
  proof (cases "split_on c xs")
    case Nil
    then show ?thesis by simp
  next
    case (Cons w ws)
    with Cons.IH show ?thesis by (simp add: join_with_head)
  qed
qed

lemma split_on_single: "c \<notin> set w \<Longrightarrow> split_on c w = [w]"
  by (induction w) auto

lemma split_on_append: "split_on c (a @ c # b) = split_on c a @ split_on c b"
proof (induction a)
  case Nil
  then show ?case by simp
next
  case (Cons x xs)
  then show ?case by (cases "split_on c xs") auto
qed

lemma split_on_sep: "c \<notin> set a \<Longrightarrow> split_on c (a @ c # b) = a # split_on c b"
  by (simp add: split_on_append split_on_single)

lemma split_on_elem: "w \<in> set (split_on c s) \<Longrightarrow> c \<notin> set w"
  by (induction s arbitrary: w) (auto split: if_splits list.splits)

lemma split_join:
  "ws \<noteq> [] \<Longrightarrow> (\<And>w. w \<in> set ws \<Longrightarrow> c \<notin> set w) \<Longrightarrow> split_on c (join_with c ws) = ws"
proof (induction ws)
  case Nil
  then show ?case by simp
next
  case (Cons w ws)
  then show ?case
    by (cases "ws = []") (auto simp: join_with_Cons split_on_single split_on_sep)
qed

lemma join_with_append:
  "us \<noteq> [] \<Longrightarrow> vs \<noteq> [] \<Longrightarrow> join_with c (us @ vs) = join_with c us @ c # join_with c vs"
proof (induction us)
  case Nil
  then show ?case by simp
next
  case (Cons u us)
  then show ?case by (cases "us = []") (simp_all add: join_with_Cons)
qed

lemma split_on_eq_iff: "split_on c s = split_on c t \<longleftrightarrow> s = t"
  by (metis join_split)

text \<open>A string that begins with \<open>a\<close> and a separator begins with the pieces of \<open>a\<close>.\<close>

lemma prefix_split_on:
  "prefix (split_on c a) (split_on c s) \<longleftrightarrow> s = a \<or> prefix (a @ [c]) s"
proof
  assume "prefix (split_on c a) (split_on c s)"
  then obtain zs where zs: "split_on c s = split_on c a @ zs" by (auto simp: prefix_def)
  show "s = a \<or> prefix (a @ [c]) s"
  proof (cases "zs = []")
    case True
    with zs show ?thesis by (simp add: split_on_eq_iff)
  next
    case False
    from zs have "s = join_with c (split_on c a @ zs)" by (metis join_split)
    with False have "s = a @ c # join_with c zs" by (simp add: join_with_append)
    then show ?thesis by (simp add: prefix_def)
  qed
next
  assume "s = a \<or> prefix (a @ [c]) s"
  then show "prefix (split_on c a) (split_on c s)"
    by (auto simp: prefix_def split_on_append)
qed

lemma list_ex_upto: "list_ex P [0..<Suc m] \<longleftrightarrow> (\<exists>k\<le>m. P k)"
  by (auto simp: list_ex_iff less_Suc_eq_le simp del: upt_Suc)

text \<open>The test "longer than \<open>a\<close>, begins with \<open>a\<close>, and the next byte is \<open>c\<close>".\<close>

lemma prefix_sep:
  "length a < length s \<and> prefix a s \<and> s ! length a = c \<longleftrightarrow> prefix (a @ [c]) s"
proof
  assume l: "length a < length s \<and> prefix a s \<and> s ! length a = c"
  then obtain zs where zs: "s = a @ zs" by (auto simp: prefix_def)
  with l obtain z zs' where z: "zs = z # zs'" by (cases zs) auto
  with zs l have "z = c" by (simp add: nth_append)
  with zs z show "prefix (a @ [c]) s" by (simp add: prefix_def)
qed (auto simp: prefix_def nth_append)

section \<open>Normal forms\<close>

text \<open>
  A function that brings values into a normal form: on its domain the result is in the form,
  and exactly the values in the form are left alone.
\<close>

locale normaliser =
  fixes norm :: "'a \<Rightarrow> 'a"
    and form :: "'a \<Rightarrow> bool"
    and ok :: "'a \<Rightarrow> bool"
  assumes norm_form: "ok x \<Longrightarrow> form (norm x)"
    and form_fixed: "norm x = x \<longleftrightarrow> form x"
begin

lemma idem: "ok x \<Longrightarrow> norm (norm x) = norm x"
  by (simp add: norm_form form_fixed)

lemma form_iff_range: "ok x \<Longrightarrow> form x \<longleftrightarrow> (\<exists>y. ok y \<and> norm y = x)"
  by (metis norm_form form_fixed)

end

end
