(* ===== verification/Go_Strings.thy ===== *)
theory Go_Strings
  imports Prelude
begin

text \<open>
  The part of Go's \<^verbatim>\<open>strings\<close>, \<^verbatim>\<open>unicode\<close> and \<^verbatim>\<open>unicode/utf8\<close> packages the program uses.
  A Go string is a sequence of bytes, and so is a HOL \<open>string\<close>: a \<open>char\<close> is an 8-bit value.
  Runes are code points (\<open>nat\<close>), decoded the way \<^verbatim>\<open>range\<close> over a string decodes them: a
  byte that starts no valid sequence is the rune U+FFFD of width 1.
  The letter-case and letter/digit tables of Unicode beyond ASCII are data, and the model
  takes them as an argument (the record \<open>unicode\<close>), so what is proved holds for every table.
\<close>

section \<open>Runes and UTF-8\<close>

type_synonym rune = nat

abbreviation slash :: char where "slash \<equiv> CHR ''/''"

abbreviation byte :: "char \<Rightarrow> nat" where "byte c \<equiv> of_char c"

definition RuneError :: rune where "RuneError = 0xFFFD"

definition cont_byte :: "char \<Rightarrow> bool" where
  "cont_byte c \<longleftrightarrow> 0x80 \<le> byte c \<and> byte c \<le> 0xBF"

text \<open>The range of the second byte, which excludes overlong forms and surrogates.\<close>

definition second_ok :: "nat \<Rightarrow> char \<Rightarrow> bool" where
  "second_ok b0 c =
     (if b0 = 0xE0 then 0xA0 \<le> byte c \<and> byte c \<le> 0xBF
      else if b0 = 0xED then 0x80 \<le> byte c \<and> byte c \<le> 0x9F
      else if b0 = 0xF0 then 0x90 \<le> byte c \<and> byte c \<le> 0xBF
      else if b0 = 0xF4 then 0x80 \<le> byte c \<and> byte c \<le> 0x8F
      else cont_byte c)"

text \<open>\<^verbatim>\<open>utf8.DecodeRuneInString\<close>: the first rune and its width in bytes.\<close>

fun decode_rune :: "string \<Rightarrow> rune \<times> nat" where
  "decode_rune [] = (RuneError, 0)"
| "decode_rune (c0 # cs) =
     (let b0 = byte c0 in
      if b0 < 0x80 then (b0, 1)
      else if b0 < 0xC2 \<or> 0xF4 < b0 then (RuneError, 1)
      else if b0 < 0xE0 then
        (case cs of
           c1 # _ \<Rightarrow> if second_ok b0 c1 then ((b0 - 0xC0) * 64 + (byte c1 - 0x80), 2)
                     else (RuneError, 1)
         | _ \<Rightarrow> (RuneError, 1))
      else if b0 < 0xF0 then
        (case cs of
           c1 # c2 # _ \<Rightarrow> if second_ok b0 c1 \<and> cont_byte c2
             then ((b0 - 0xE0) * 4096 + (byte c1 - 0x80) * 64 + (byte c2 - 0x80), 3)
             else (RuneError, 1)
         | _ \<Rightarrow> (RuneError, 1))
      else
        (case cs of
           c1 # c2 # c3 # _ \<Rightarrow> if second_ok b0 c1 \<and> cont_byte c2 \<and> cont_byte c3
             then ((b0 - 0xF0) * 262144 + (byte c1 - 0x80) * 4096 + (byte c2 - 0x80) * 64
                   + (byte c3 - 0x80), 4)
             else (RuneError, 1)
         | _ \<Rightarrow> (RuneError, 1)))"

lemma decode_rune_width: "0 < snd (decode_rune (c # cs))"
  by (auto simp: Let_def split: list.splits)

text \<open>The runes of a string, each with the bytes it was decoded from.\<close>

function chunks :: "string \<Rightarrow> (rune \<times> string) list" where
  "chunks [] = []"
| "chunks (c # cs) =
     (let (r, w) = decode_rune (c # cs)
      in (r, take w (c # cs)) # chunks (drop w (c # cs)))"
  by pat_completeness auto
termination
proof (relation "measure length")
  fix c :: char and cs :: string and p :: "rune \<times> nat" and r :: rune and w :: nat
  assume "p = decode_rune (c # cs)" and "(r, w) = p"
  then have "0 < w" using decode_rune_width [of c cs] by (metis snd_conv)
  then show "(drop w (c # cs), c # cs) \<in> measure length" by simp
qed simp

declare chunks.simps(2) [simp del]

definition runes :: "string \<Rightarrow> rune list" where
  "runes s = map fst (chunks s)"

text \<open>\<^verbatim>\<open>utf8.AppendRune\<close>: surrogates and values beyond U+10FFFF are written as U+FFFD.\<close>

definition encode_rune :: "rune \<Rightarrow> string" where
  "encode_rune r0 =
     (let r = (if 0x10FFFF < r0 \<or> (0xD800 \<le> r0 \<and> r0 \<le> 0xDFFF) then RuneError else r0) in
      if r < 0x80 then [char_of r]
      else if r < 0x800 then [char_of (0xC0 + r div 64), char_of (0x80 + r mod 64)]
      else if r < 0x10000 then
        [char_of (0xE0 + r div 4096), char_of (0x80 + r div 64 mod 64), char_of (0x80 + r mod 64)]
      else
        [char_of (0xF0 + r div 262144), char_of (0x80 + r div 4096 mod 64),
         char_of (0x80 + r div 64 mod 64), char_of (0x80 + r mod 64)])"

text \<open>The conversion \<^verbatim>\<open>string(rs)\<close> of a rune slice.\<close>

definition string_of_runes :: "rune list \<Rightarrow> string" where
  "string_of_runes rs = concat (map encode_rune rs)"

definition ascii :: "string \<Rightarrow> bool" where
  "ascii s \<longleftrightarrow> (\<forall>c \<in> set s. byte c < 0x80)"

lemma chunks_ascii: "ascii s \<Longrightarrow> chunks s = map (\<lambda>c. (byte c, [c])) s"
  by (induction s) (auto simp: ascii_def chunks.simps(2) Let_def)

lemma runes_ascii: "ascii s \<Longrightarrow> runes s = map byte s"
  by (simp add: runes_def chunks_ascii comp_def)

lemma chunks_concat: "concat (map snd (chunks s)) = s"
proof (induction s rule: chunks.induct)
  case 1
  then show ?case by simp
next
  case (2 c cs)
  obtain r w where d: "decode_rune (c # cs) = (r, w)" by fastforce
  from 2 [OF d [symmetric] refl] have "concat (map snd (chunks (drop w (c # cs)))) = drop w (c # cs)" .
  with d show ?case by (simp add: chunks.simps(2) del: drop.simps take.simps decode_rune.simps)
qed

lemma length_chunks: "length (chunks s) \<le> length s"
proof (induction s rule: chunks.induct)
  case 1
  then show ?case by simp
next
  case (2 c cs)
  obtain r w where d: "decode_rune (c # cs) = (r, w)" by fastforce
  then have w: "0 < w" using decode_rune_width [of c cs] by simp
  from 2 [OF d [symmetric] refl] have "length (chunks (drop w (c # cs))) \<le> length (drop w (c # cs))" .
  with d w show ?case by (simp add: chunks.simps(2) del: decode_rune.simps)
qed

section \<open>Character classes\<close>

text \<open>
  \<^verbatim>\<open>unicode.IsSpace\<close> is the Unicode White_Space property, listed in full. The case mapping,
  the case-folding orbits, the letters and the digits are ASCII here and a table beyond.
  \<open>u_fold a b\<close> is asked for \<open>a < b\<close> only: whether the orbit of \<open>a\<close> reaches \<open>b\<close>.
\<close>

record unicode =
  u_lower :: "rune \<Rightarrow> rune"
  u_fold :: "rune \<Rightarrow> rune \<Rightarrow> bool"
  u_letter :: "rune \<Rightarrow> bool"
  u_digit :: "rune \<Rightarrow> bool"

text \<open>Empty tables, for concrete inputs in ASCII.\<close>

definition ascii_only :: unicode where
  "ascii_only = \<lparr>u_lower = id, u_fold = \<lambda>_ _. False, u_letter = \<lambda>_. False, u_digit = \<lambda>_. False\<rparr>"

definition space_runes :: "rune list" where
  "space_runes = [9, 10, 11, 12, 13, 32, 0x85, 0xA0, 0x1680, 0x2000, 0x2001, 0x2002, 0x2003,
     0x2004, 0x2005, 0x2006, 0x2007, 0x2008, 0x2009, 0x200a, 0x2028, 0x2029, 0x202f, 0x205f,
     0x3000]"

definition IsSpace :: "rune \<Rightarrow> bool" where
  "IsSpace r \<longleftrightarrow> r \<in> set space_runes"

definition rune_lower :: "unicode \<Rightarrow> rune \<Rightarrow> rune" where
  "rune_lower U r =
     (if r < 128 then (if 65 \<le> r \<and> r \<le> 90 then r + 32 else r) else u_lower U r)"

definition IsLetter :: "unicode \<Rightarrow> rune \<Rightarrow> bool" where
  "IsLetter U r =
     (if r < 128 then (65 \<le> r \<and> r \<le> 90) \<or> (97 \<le> r \<and> r \<le> 122) else u_letter U r)"

definition IsDigit :: "unicode \<Rightarrow> rune \<Rightarrow> bool" where
  "IsDigit U r = (if r < 128 then 48 \<le> r \<and> r \<le> 57 else u_digit U r)"

text \<open>Whether \<^verbatim>\<open>EqualFold\<close> takes two runes for equal.\<close>

definition fold_eq :: "unicode \<Rightarrow> rune \<Rightarrow> rune \<Rightarrow> bool" where
  "fold_eq U a b =
     (if a = b then True
      else let lo = min a b; hi = max a b in
        if hi < 128 then 65 \<le> lo \<and> lo \<le> 90 \<and> hi = lo + 32
        else u_fold U lo hi)"

section \<open>Package strings\<close>

abbreviation HasPrefix :: "string \<Rightarrow> string \<Rightarrow> bool" where "HasPrefix s p \<equiv> prefix p s"
abbreviation HasSuffix :: "string \<Rightarrow> string \<Rightarrow> bool" where "HasSuffix s p \<equiv> suffix p s"
abbreviation Contains :: "string \<Rightarrow> string \<Rightarrow> bool" where "Contains s sub \<equiv> sublist sub s"
abbreviation Split :: "string \<Rightarrow> char \<Rightarrow> string list" where "Split s c \<equiv> split_on c s"

definition ContainsAny :: "string \<Rightarrow> string \<Rightarrow> bool" where
  "ContainsAny s chars \<longleftrightarrow> list_ex (\<lambda>c. c \<in> set chars) s"

fun IndexByte :: "string \<Rightarrow> char \<Rightarrow> nat option" where
  "IndexByte [] c = None"
| "IndexByte (x # xs) c = (if x = c then Some 0 else map_option Suc (IndexByte xs c))"

definition TrimRight :: "string \<Rightarrow> char \<Rightarrow> string" where
  "TrimRight s c = rev (dropWhile (\<lambda>x. x = c) (rev s))"

definition TrimPrefix :: "string \<Rightarrow> string \<Rightarrow> string" where
  "TrimPrefix s p = (if prefix p s then drop (length p) s else s)"

definition ToLower :: "unicode \<Rightarrow> string \<Rightarrow> string" where
  "ToLower U s = string_of_runes (map (rune_lower U) (runes s))"

definition EqualFold :: "unicode \<Rightarrow> string \<Rightarrow> string \<Rightarrow> bool" where
  "EqualFold U s t = list_all2 (fold_eq U) (runes s) (runes t)"

text \<open>
  \<^verbatim>\<open>TrimSpace\<close> strips the encodings of white space from both ends; only the encoding of a
  white-space rune decodes to one, forwards and backwards.
\<close>

definition space_encodings :: "string list" where
  "space_encodings = map encode_rune space_runes"

function strip_any :: "string list \<Rightarrow> string \<Rightarrow> string" where
  "strip_any es s =
     (case find (\<lambda>e. e \<noteq> [] \<and> prefix e s) es of
        None \<Rightarrow> s
      | Some e \<Rightarrow> strip_any es (drop (length e) s))"
  by pat_completeness auto
termination
proof (relation "measure (\<lambda>(es, s). length s)")
  fix es :: "string list" and s e :: string
  assume "find (\<lambda>e. e \<noteq> [] \<and> prefix e s) es = Some e"
  then have "e \<noteq> [] \<and> prefix e s" by (auto simp: find_Some_iff)
  then show "((es, drop (length e) s), (es, s)) \<in> measure (\<lambda>(es, s). length s)"
    by (auto simp: prefix_def)
qed simp

declare strip_any.simps [simp del]

definition TrimLeftSpace :: "string \<Rightarrow> string" where
  "TrimLeftSpace s = strip_any space_encodings s"

definition TrimRightSpace :: "string \<Rightarrow> string" where
  "TrimRightSpace s = rev (strip_any (map rev space_encodings) (rev s))"

definition TrimSpace :: "string \<Rightarrow> string" where
  "TrimSpace s = TrimRightSpace (TrimLeftSpace s)"

text \<open>\<^verbatim>\<open>FieldsFunc\<close>: the maximal runs of runes that do not satisfy the predicate.\<close>

fun fields_loop :: "(rune \<Rightarrow> bool) \<Rightarrow> string \<Rightarrow> (rune \<times> string) list \<Rightarrow> string list" where
  "fields_loop f acc [] = (if acc = [] then [] else [acc])"
| "fields_loop f acc ((r, w) # cs) =
     (if f r then (if acc = [] then fields_loop f [] cs else acc # fields_loop f [] cs)
      else fields_loop f (acc @ w) cs)"

definition FieldsFunc :: "string \<Rightarrow> (rune \<Rightarrow> bool) \<Rightarrow> string list" where
  "FieldsFunc s f = fields_loop f [] (chunks s)"

definition Fields :: "string \<Rightarrow> string list" where
  "Fields s = FieldsFunc s IsSpace"

text \<open>Decimal digits, as \<^verbatim>\<open>fmt\<close> prints an integer with \<^verbatim>\<open>%d\<close>.\<close>

fun nat_dec :: "nat \<Rightarrow> string" where
  "nat_dec n = (if n < 10 then [char_of (48 + n)] else nat_dec (n div 10) @ [char_of (48 + n mod 10)])"

declare nat_dec.simps [simp del]

definition int_dec :: "int \<Rightarrow> string" where
  "int_dec i = (if i < 0 then CHR ''-'' # nat_dec (nat (- i)) else nat_dec (nat i))"

section \<open>Facts the components use\<close>

lemma nat_dec_digits: "nat_dec n \<noteq> [] \<and> (\<forall>c \<in> set (nat_dec n). 48 \<le> byte c \<and> byte c \<le> 57)"
proof (induction n rule: nat_dec.induct)
  case (1 n)
  show ?case
  proof (cases "n < 10")
    case True
    then show ?thesis by (subst (1 2) nat_dec.simps) simp
  next
    case False
    have "n mod 10 < 10" by simp
    with 1 [OF False] False show ?thesis
      by (subst (1 2) nat_dec.simps) auto
  qed
qed

lemma IndexByte_None: "IndexByte s c = None \<longleftrightarrow> c \<notin> set s"
  by (induction s) auto

lemma IndexByte_SomeD:
  "IndexByte s c = Some i \<Longrightarrow> i < length s \<and> s = take i s @ c # drop (Suc i) s \<and> c \<notin> set (take i s)"
proof (induction s arbitrary: i)
  case Nil
  then show ?case by simp
next
  case (Cons x xs)
  show ?case
  proof (cases "x = c")
    case True
    with Cons.prems show ?thesis by simp
  next
    case False
    with Cons.prems obtain j where j: "IndexByte xs c = Some j" "i = Suc j" by auto
    with Cons.IH [OF j(1)] False show ?thesis by auto
  qed
qed

lemma ascii_simps [simp]:
  "ascii []"
  "ascii (c # cs) \<longleftrightarrow> byte c < 0x80 \<and> ascii cs"
  "ascii (s @ t) \<longleftrightarrow> ascii s \<and> ascii t"
  by (auto simp: ascii_def)

text \<open>Case folding on ASCII strings is byte by byte.\<close>

lemma ToLower_ascii:
  "ascii s \<Longrightarrow> ToLower U s = map (\<lambda>c. if 65 \<le> byte c \<and> byte c \<le> 90 then char_of (byte c + 32) else c) s"
  by (induction s)
     (auto simp: ToLower_def string_of_runes_def runes_ascii rune_lower_def encode_rune_def
        RuneError_def)

lemma fold_eq_refl [simp]: "fold_eq U a a"
  by (simp add: fold_eq_def)

lemma EqualFold_refl [simp]: "EqualFold U s s"
  by (simp add: EqualFold_def list_all2_refl)

lemma EqualFold_sym: "EqualFold U s t \<longleftrightarrow> EqualFold U t s"
proof -
  have "fold_eq U = (\<lambda>a b. fold_eq U b a)" 
    by (intro ext) (auto simp: fold_eq_def min.commute max.commute Let_def)
  then show ?thesis by (metis EqualFold_def list_all2_conv_all_nth)
qed

text \<open>Every field is made of runes that are not separators, and none is empty.\<close>

lemma chunk_nonempty: "(r, w) \<in> set (chunks s) \<Longrightarrow> w \<noteq> []"
proof (induction s rule: chunks.induct)
  case 1
  then show ?case by simp
next
  case (2 c cs)
  obtain r' w' where d: "decode_rune (c # cs) = (r', w')" by fastforce
  then have "0 < w'" using decode_rune_width [of c cs] by simp
  with d 2 show ?case by (auto simp: chunks.simps(2) simp del: decode_rune.simps)
qed

lemma fields_loop_nonempty:
  "(\<forall>(r, w) \<in> set cs. w \<noteq> []) \<Longrightarrow> [] \<notin> set (fields_loop f acc cs)"
  by (induction f acc cs rule: fields_loop.induct) auto

lemma Fields_nonempty: "[] \<notin> set (Fields s)"
  unfolding Fields_def FieldsFunc_def
  by (rule fields_loop_nonempty) (auto dest: chunk_nonempty)

text \<open>Trimming: the result has no white space at either end, and trimming it again is nothing.\<close>

definition trimmed :: "string \<Rightarrow> bool" where
  "trimmed s \<longleftrightarrow> (\<forall>e \<in> set space_encodings. \<not> prefix e s \<and> \<not> suffix e s)"

lemma strip_any_stripped: "e \<in> set es \<Longrightarrow> e \<noteq> [] \<Longrightarrow> \<not> prefix e (strip_any es s)"
proof (induction es s rule: strip_any.induct)
  case (1 es s)
  show ?case
  proof (cases "find (\<lambda>e. e \<noteq> [] \<and> prefix e s) es")
    case None
    then have "strip_any es s = s" by (subst strip_any.simps) simp
    with None 1 show ?thesis by (auto simp: find_None_iff)
  next
    case (Some e')
    with 1 show ?thesis by (subst strip_any.simps) simp
  qed
qed

lemma strip_any_id: "(\<And>e. e \<in> set es \<Longrightarrow> \<not> prefix e s) \<Longrightarrow> strip_any es s = s"
proof -
  assume "\<And>e. e \<in> set es \<Longrightarrow> \<not> prefix e s"
  then have "find (\<lambda>e. e \<noteq> [] \<and> prefix e s) es = None" by (auto simp: find_None_iff)
  then show ?thesis by (subst strip_any.simps) simp
qed

lemma strip_any_suffix: "suffix (strip_any es s) s"
proof (induction es s rule: strip_any.induct)
  case (1 es s)
  show ?case
  proof (cases "find (\<lambda>e. e \<noteq> [] \<and> prefix e s) es")
    case None
    then show ?thesis by (subst strip_any.simps) simp
  next
    case (Some e)
    with 1 have "suffix (strip_any es (drop (length e) s)) (drop (length e) s)" by blast
    with Some show ?thesis
      by (subst strip_any.simps) (auto intro: suffix_order.trans suffix_drop)
  qed
qed

lemma encode_rune_nonempty [simp]: "encode_rune r \<noteq> []"
  by (simp add: encode_rune_def Let_def)

lemma space_encodings_nonempty: "e \<in> set space_encodings \<Longrightarrow> e \<noteq> []"
  by (auto simp: space_encodings_def)

lemma TrimSpace_trimmed [simp]: "trimmed (TrimSpace s)"
proof -
  let ?l = "TrimLeftSpace s" and ?t = "TrimSpace s"
  have "suffix (strip_any (map rev space_encodings) (rev ?l)) (rev ?l)" by (rule strip_any_suffix)
  then have pre: "prefix ?t ?l" by (simp add: TrimSpace_def TrimRightSpace_def suffix_to_prefix)
  show ?thesis unfolding trimmed_def
  proof (intro ballI conjI)
    fix e assume e: "e \<in> set space_encodings"
    then have "\<not> prefix e ?l"
      unfolding TrimLeftSpace_def using space_encodings_nonempty by (intro strip_any_stripped)
    with pre show "\<not> prefix e ?t" by (meson prefix_order.trans)
    have "\<not> prefix (rev e) (strip_any (map rev space_encodings) (rev ?l))"
      using e space_encodings_nonempty [OF e] by (intro strip_any_stripped) auto
    then show "\<not> suffix e ?t" by (simp add: TrimSpace_def TrimRightSpace_def suffix_to_prefix)
  qed
qed

lemma trimmed_TrimSpace: "trimmed s \<Longrightarrow> TrimSpace s = s"
proof -
  assume t: "trimmed s"
  then have "TrimLeftSpace s = s"
    unfolding TrimLeftSpace_def by (intro strip_any_id) (auto simp: trimmed_def)
  moreover have "strip_any (map rev space_encodings) (rev s) = rev s"
    using t by (intro strip_any_id) (auto simp: trimmed_def suffix_to_prefix)
  ultimately show ?thesis by (simp add: TrimSpace_def TrimRightSpace_def)
qed

lemma trimmed_iff: "TrimSpace s = s \<longleftrightarrow> trimmed s"
  by (metis TrimSpace_trimmed trimmed_TrimSpace)

interpretation trim: normaliser TrimSpace trimmed "\<lambda>_. True"
  by unfold_locales (simp_all add: trimmed_iff)

lemma TrimSpace_idem [simp]: "TrimSpace (TrimSpace s) = TrimSpace s"
  by (rule trim.idem) (rule TrueI)

lemma trimmed_Nil [simp]: "trimmed ''''"
  by (auto simp: trimmed_def dest: space_encodings_nonempty)

lemma TrimSpace_Nil [simp]: "TrimSpace '''' = ''''"
  by (simp add: trimmed_TrimSpace)

text \<open>Lower-casing an ASCII string is byte by byte, and neither makes nor removes white space.\<close>

definition lower_byte :: "char \<Rightarrow> char" where
  "lower_byte c = (if 65 \<le> byte c \<and> byte c \<le> 90 then char_of (byte c + 32) else c)"

lemma byte_lower_byte: "byte (lower_byte c) = (if 65 \<le> byte c \<and> byte c \<le> 90 then byte c + 32 else byte c)"
  by (simp add: lower_byte_def)

lemma lower_byte_idem [simp]: "lower_byte (lower_byte c) = lower_byte c"
  by (simp add: lower_byte_def)

lemma ToLower_ascii_map: "ascii s \<Longrightarrow> ToLower U s = map lower_byte s"
  by (simp add: ToLower_ascii lower_byte_def)

lemma ascii_lower: "ascii s \<Longrightarrow> ascii (map lower_byte s)"
  by (auto simp: ascii_def byte_lower_byte)

lemma ascii_TrimSpace: "ascii s \<Longrightarrow> ascii (TrimSpace s)"
proof -
  assume a: "ascii s"
  have "set (TrimLeftSpace s) \<subseteq> set s"
    using strip_any_suffix [of space_encodings s] by (simp add: TrimLeftSpace_def set_mono_suffix)
  moreover have "set (TrimSpace s) \<subseteq> set (TrimLeftSpace s)"
    using set_mono_suffix [OF strip_any_suffix [of "map rev space_encodings" "rev (TrimLeftSpace s)"]]
    by (simp add: TrimSpace_def TrimRightSpace_def)
  ultimately show ?thesis using a by (auto simp: ascii_def)
qed

lemma space_encoding_cases:
  "e \<in> set space_encodings \<Longrightarrow>
     (\<exists>c. e = [c] \<and> byte c < 33) \<or> (0x80 \<le> byte (hd e) \<and> 0x80 \<le> byte (last e))"
  by (simp add: space_encodings_def space_runes_def)
    (elim disjE; simp add: encode_rune_def RuneError_def)

lemma lower_byte_space: "byte c < 33 \<Longrightarrow> lower_byte d = c \<Longrightarrow> d = c"
  by (auto simp: lower_byte_def split: if_splits)

lemma lower_space_prefix: "byte c < 33 \<Longrightarrow> prefix [c] (map lower_byte s) \<Longrightarrow> prefix [c] s"
  by (cases s) (auto dest: lower_byte_space)

lemma lower_space_suffix: "byte c < 33 \<Longrightarrow> suffix [c] (map lower_byte s) \<Longrightarrow> suffix [c] s"
  using lower_space_prefix [of c "rev s"] by (simp add: suffix_to_prefix rev_map)

lemma trimmed_lower:
  assumes "ascii s" "trimmed s" shows "trimmed (map lower_byte s)"
  unfolding trimmed_def
proof (intro ballI conjI)
  fix e assume e: "e \<in> set space_encodings"
  have ne: "e \<noteq> []" by (rule space_encodings_nonempty [OF e])
  from space_encoding_cases [OF e] have "\<not> prefix e (map lower_byte s) \<and> \<not> suffix e (map lower_byte s)"
  proof
    assume "\<exists>c. e = [c] \<and> byte c < 33"
    then obtain c where c: "e = [c]" "byte c < 33" by blast
    with assms(2) e have "\<not> prefix [c] s" "\<not> suffix [c] s" by (auto simp: trimmed_def)
    then show ?thesis
      using c lower_space_prefix [of c s] lower_space_suffix [of c s] by blast
  next
    assume hi: "0x80 \<le> byte (hd e) \<and> 0x80 \<le> byte (last e)"
    have lo: "byte c < 0x80" if "c \<in> set (map lower_byte s)" for c
      using that ascii_lower [OF assms(1)] unfolding ascii_def by blast
    show ?thesis
    proof
      show "\<not> prefix e (map lower_byte s)"
      proof
        assume "prefix e (map lower_byte s)"
        then have "hd e \<in> set (map lower_byte s)" using ne by (metis hd_in_set set_mono_prefix subsetD)
        with lo hi show False by fastforce
      qed
      show "\<not> suffix e (map lower_byte s)"
      proof
        assume "suffix e (map lower_byte s)"
        then have "last e \<in> set (map lower_byte s)" using ne by (metis last_in_set set_mono_suffix subsetD)
        with lo hi show False by fastforce
      qed
    qed
  qed
  then show "\<not> prefix e (map lower_byte s)" "\<not> suffix e (map lower_byte s)" by blast+
qed

text \<open>A word of graphic ASCII bytes has nothing to trim.\<close>

definition graphic :: "string \<Rightarrow> bool" where
  "graphic s \<longleftrightarrow> list_all (\<lambda>c. 33 \<le> byte c \<and> byte c < 0x80) s"

lemma graphic_trimmed: "graphic s \<Longrightarrow> trimmed s"
  unfolding trimmed_def
proof (intro ballI conjI notI)
  fix e assume g: "graphic s" and e: "e \<in> set space_encodings"
  have ends: "byte (hd e) < 33 \<or> 0x80 \<le> byte (hd e)" "byte (last e) < 33 \<or> 0x80 \<le> byte (last e)"
    using space_encoding_cases [OF e] by auto
  have ne: "e \<noteq> []" by (rule space_encodings_nonempty [OF e])
  have mem: "33 \<le> byte c \<and> byte c < 0x80" if "c \<in> set s" for c
    using g that by (auto simp: graphic_def list_all_iff)
  show False if "prefix e s"
    using mem [of "hd e"] ends ne that set_mono_prefix [of e s] by (metis hd_in_set not_le subsetD)
  show False if "suffix e s"
    using mem [of "last e"] ends ne that set_mono_suffix [of e s] by (metis last_in_set not_le subsetD)
qed

section \<open>Decoding what was encoded\<close>

definition valid_rune :: "rune \<Rightarrow> bool" where
  "valid_rune r \<longleftrightarrow> r \<le> 0x10FFFF \<and> \<not> (0xD800 \<le> r \<and> r \<le> 0xDFFF)"

lemma div_mod_64: "r div 4096 = r div 64 div 64" "r div 262144 = r div 64 div 64 div 64" for r :: nat
  by (simp_all add: div_mult2_eq [symmetric])

lemma join_64: "x * 64 + y = r" if "x = r div 64" "y = r mod 64" for x y r :: nat
  using that by simp

lemma decode_encode_2:
  assumes "0x80 \<le> r" "r < 0x800"
  shows "decode_rune (encode_rune r @ rest) = (r, 2)"
proof -
  have q: "2 \<le> r div 64" "r div 64 < 32" using assms by auto
  have m: "r mod 64 < 64" by simp
  show ?thesis using assms q m
    by (simp add: encode_rune_def second_ok_def cont_byte_def Let_def)
qed

lemma decode_encode_3:
  assumes "0x800 \<le> r" "r < 0x10000" "valid_rune r"
  shows "decode_rune (encode_rune r @ rest) = (r, 3)"
proof -
  define x y z where d: "x = r div 4096" "y = r div 64 mod 64" "z = r mod 64"
  have "r = r div 64 * 64 + r mod 64" "r div 64 = r div 64 div 64 * 64 + r div 64 mod 64" by simp_all
  then have xyz: "r = x * 4096 + y * 64 + z" "y < 64" "z < 64"
    unfolding d div_mod_64 by (linarith, simp_all)
  have x: "x < 16" using assms xyz by simp
  have y0: "32 \<le> y" if "x = 0" using that assms(1) xyz by simp
  have y13: "y < 32" if "x = 13" using that assms(3) xyz by (simp add: valid_rune_def)
  have e: "encode_rune r = [char_of (0xE0 + x), char_of (0x80 + y), char_of (0x80 + z)]"
    using assms by (auto simp: encode_rune_def valid_rune_def d)
  show ?thesis unfolding e using xyz x y0 y13
    by (cases "x = 0"; cases "x = 13") (simp_all add: second_ok_def cont_byte_def Let_def)
qed

lemma decode_encode_4:
  assumes "0x10000 \<le> r" "valid_rune r"
  shows "decode_rune (encode_rune r @ rest) = (r, 4)"
proof -
  define x y z w where d: "x = r div 262144" "y = r div 4096 mod 64" "z = r div 64 mod 64" "w = r mod 64"
  have "r = r div 64 * 64 + r mod 64" "r div 64 = r div 64 div 64 * 64 + r div 64 mod 64"
    "r div 64 div 64 = r div 64 div 64 div 64 * 64 + r div 64 div 64 mod 64" by simp_all
  then have xyz: "r = x * 262144 + y * 4096 + z * 64 + w" "y < 64" "z < 64" "w < 64"
    unfolding d div_mod_64 by (linarith, simp_all)
  have x: "x \<le> 4" using assms xyz by (simp add: valid_rune_def)
  have y0: "16 \<le> y" if "x = 0" using that assms(1) xyz by simp
  have y4: "y < 16" if "x = 4" using that assms(2) xyz by (simp add: valid_rune_def)
  have e: "encode_rune r = [char_of (0xF0 + x), char_of (0x80 + y), char_of (0x80 + z), char_of (0x80 + w)]"
    using assms by (auto simp: encode_rune_def valid_rune_def d)
  show ?thesis unfolding e using xyz x y0 y4
    by (cases "x = 0"; cases "x = 4") (simp_all add: second_ok_def cont_byte_def Let_def)
qed

lemma decode_encode:
  assumes "valid_rune r"
  shows "decode_rune (encode_rune r @ rest) = (r, length (encode_rune r))"
proof -
  consider "r < 0x80" | "0x80 \<le> r" "r < 0x800" | "0x800 \<le> r" "r < 0x10000" | "0x10000 \<le> r" by linarith
  then show ?thesis
  proof cases
    case 1
    then show ?thesis by (simp add: encode_rune_def)
  next
    case 2
    then have "length (encode_rune r) = 2" by (simp add: encode_rune_def)
    with decode_encode_2 [OF 2, of rest] show ?thesis by simp
  next
    case 3
    then have "length (encode_rune r) = 3" using assms by (simp add: encode_rune_def valid_rune_def)
    with decode_encode_3 [OF 3 assms, of rest] show ?thesis by simp
  next
    case 4
    then have "length (encode_rune r) = 4" using assms by (simp add: encode_rune_def valid_rune_def)
    with decode_encode_4 [OF 4 assms, of rest] show ?thesis by simp
  qed
qed

lemma runes_string_of_runes: "list_all valid_rune rs \<Longrightarrow> runes (string_of_runes rs) = rs"
proof (induction rs)
  case Nil
  then show ?case by (simp add: runes_def string_of_runes_def)
next
  case (Cons r rs)
  obtain c cs where e: "encode_rune r @ string_of_runes rs = c # cs"
    by (cases "encode_rune r @ string_of_runes rs") auto
  have d: "decode_rune (c # cs) = (r, length (encode_rune r))"
    unfolding e [symmetric] using Cons.prems by (intro decode_encode) simp
  have "chunks (c # cs) = (r, encode_rune r) # chunks (string_of_runes rs)"
    unfolding chunks.simps(2) d Let_def prod.case unfolding e [symmetric] by simp
  with Cons e show ?case by (simp add: runes_def string_of_runes_def)
qed

lemma valid_2: "b0 < 0xE0 \<Longrightarrow> y < 64 \<Longrightarrow> valid_rune ((b0 - 0xC0) * 64 + y)"
proof -
  assume "b0 < 0xE0" "y < 64"
  then have "(b0 - 0xC0) * 64 + y < 0xD800" by linarith
  then show ?thesis by (simp add: valid_rune_def)
qed

lemma valid_3:
  assumes "0xE0 \<le> b0" "b0 < 0xF0" "y < 64" "z < 64" "b0 = 0xED \<longrightarrow> y < 32"
  shows "valid_rune ((b0 - 0xE0) * 4096 + y * 64 + z)"
proof -
  consider "b0 \<le> 0xEC" | "b0 = 0xED" | "0xEE \<le> b0" by linarith
  then have "(b0 - 0xE0) * 4096 + y * 64 + z < 0xD800 \<or> 0xE000 \<le> (b0 - 0xE0) * 4096 + y * 64 + z"
    using assms by cases linarith+
  moreover have "(b0 - 0xE0) * 4096 + y * 64 + z \<le> 0x10FFFF" using assms by linarith
  ultimately show ?thesis by (auto simp: valid_rune_def)
qed

lemma valid_4:
  assumes "0xF0 \<le> b0" "b0 \<le> 0xF4" "y < 64" "z < 64" "w < 64" "b0 = 0xF0 \<longrightarrow> 16 \<le> y" "b0 = 0xF4 \<longrightarrow> y < 16"
  shows "valid_rune ((b0 - 0xF0) * 262144 + y * 4096 + z * 64 + w)"
proof -
  have "0x10000 \<le> (b0 - 0xF0) * 262144 + y * 4096 + z * 64 + w"
    using assms by (cases "b0 = 0xF0") linarith+
  moreover have "(b0 - 0xF0) * 262144 + y * 4096 + z * 64 + w \<le> 0x10FFFF"
    using assms by (cases "b0 = 0xF4") linarith+
  ultimately show ?thesis by (auto simp: valid_rune_def)
qed

lemma decode_valid: "valid_rune (fst (decode_rune s))"
proof (cases s)
  case Nil
  then show ?thesis by (simp add: valid_rune_def RuneError_def)
next
  case (Cons c0 cs)
  have err: "valid_rune RuneError" by (simp add: valid_rune_def RuneError_def)
  have one: "b < 0x80 \<Longrightarrow> valid_rune b" for b by (simp add: valid_rune_def)
  have cb: "cont_byte c \<Longrightarrow> byte c - 0x80 < 64" for c by (auto simp: cont_byte_def)
  have so: "second_ok b c \<Longrightarrow> byte c - 0x80 < 64 \<and> (b = 0xED \<longrightarrow> byte c - 0x80 < 32) \<and>
      (b = 0xF0 \<longrightarrow> 16 \<le> byte c - 0x80) \<and> (b = 0xF4 \<longrightarrow> byte c - 0x80 < 16)" for b c
    by (auto simp: second_ok_def cont_byte_def split: if_splits)
  show ?thesis
    unfolding Cons decode_rune.simps Let_def
    by (auto simp: err one split: list.split intro!: valid_2 valid_3 valid_4 dest: so cb)
qed

lemma runes_valid: "list_all valid_rune (runes s)"
  unfolding runes_def
proof (induction s rule: chunks.induct)
  case 1
  then show ?case by simp
next
  case (2 c cs)
  obtain r w where d: "decode_rune (c # cs) = (r, w)" by fastforce
  with decode_valid [of "c # cs"] have "valid_rune r" by simp
  with 2 [OF d [symmetric] refl] d show ?case by (simp add: chunks.simps(2) del: decode_rune.simps)
qed

text \<open>
  What remains of a string when its invalid bytes are replaced one by one with U+FFFD, as
  \<^verbatim>\<open>encoding/json\<close> does; it is the string itself when that is valid UTF-8.
\<close>

definition to_valid :: "string \<Rightarrow> string" where
  "to_valid s = string_of_runes (runes s)"

definition valid_utf8 :: "string \<Rightarrow> bool" where
  "valid_utf8 s \<longleftrightarrow> to_valid s = s"

lemma runes_to_valid [simp]: "runes (to_valid s) = runes s"
  by (simp add: to_valid_def runes_string_of_runes runes_valid)

lemma to_valid_idem [simp]: "to_valid (to_valid s) = to_valid s"
  by (simp add: to_valid_def [of "to_valid s"]) (simp add: to_valid_def)

lemma to_valid_Nil_iff [simp]: "to_valid s = [] \<longleftrightarrow> s = []"
proof (cases s)
  case (Cons c cs)
  obtain r w where "decode_rune (c # cs) = (r, w)" by fastforce
  with Cons show ?thesis
    by (simp add: to_valid_def runes_def string_of_runes_def chunks.simps(2) del: decode_rune.simps)
qed (simp add: to_valid_def runes_def string_of_runes_def)

lemma to_valid_ascii [simp]: "ascii s \<Longrightarrow> to_valid s = s"
  by (induction s) (auto simp: to_valid_def runes_ascii string_of_runes_def ascii_def encode_rune_def)

lemma to_valid_stray_byte: "to_valid [CHR 0xFF] = [CHR 0xEF, CHR 0xBF, CHR 0xBD]"
proof -
  have "char_of (239 :: nat) = CHR 0xEF" "char_of (191 :: nat) = CHR 0xBF" "char_of (189 :: nat) = CHR 0xBD"
    by code_simp+
  then show ?thesis
    by (simp add: to_valid_def runes_def chunks.simps(2) string_of_runes_def encode_rune_def RuneError_def)
qed

end
