(* ===== verification/Glob.thy ===== *)
theory Glob
  imports Go_Strings
begin

text \<open>
  The glob matcher of \<^verbatim>\<open>cmd/paldron/policy.go\<close>: \<open>segMatch\<close> is the index loop with one
  remembered star, \<open>globMatch\<close> the four shapes of pattern it is used in.
  The lemmas connect the loop with the declarative meaning of a segment pattern, \<open>seg_sem\<close>,
  and \<open>globMatch\<close> with the elements of the path.
\<close>

section \<open>One segment\<close>

text \<open>
  The loop state is the pattern index \<open>px\<close>, the name index \<open>nx\<close>, the index of the last star
  taken (\<open>None\<close> is the code's \<open>-1\<close>) and the name index it was taken at.
\<close>

fun star_rank :: "string \<Rightarrow> nat \<Rightarrow> nat option \<Rightarrow> nat" where
  "star_rank p px None = length p + 1"
| "star_rank p px (Some s) = (if s < px then length p - s else length p + 2)"

lemma star_rank_step: "star_rank p (Suc px) star \<le> star_rank p px star"
  by (cases star) auto

lemma star_rank_same:
  "\<not> star_rank p (Suc px) star < star_rank p px star \<Longrightarrow> star_rank p (Suc px) star = star_rank p px star"
  using star_rank_step [of p px star] by simp

lemma star_rank_take: "px < length p \<Longrightarrow> length p - px < star_rank p px star"
  by (cases star) auto

function segMatch_loop :: "string \<Rightarrow> string \<Rightarrow> nat \<Rightarrow> nat \<Rightarrow> nat option \<Rightarrow> nat \<Rightarrow> bool" where
  "segMatch_loop p n px nx star starN =
     (if nx < length n then
        if px < length p \<and> (p ! px = CHR ''?'' \<or> p ! px = n ! nx)
        then segMatch_loop p n (px + 1) (nx + 1) star starN
        else if px < length p \<and> p ! px = CHR ''*''
        then segMatch_loop p n (px + 1) nx (Some px) nx
        else (case star of
                Some s \<Rightarrow> segMatch_loop p n (s + 1) (starN + 1) star (starN + 1)
              | None \<Rightarrow> False)
      else dropWhile (\<lambda>c. c = CHR ''*'') (drop px p) = [])"
  by pat_completeness auto
termination
  by (relation "measures [\<lambda>(p, n, px, nx, star, starN). star_rank p px star,
        \<lambda>(p, n, px, nx, star, starN). length n - starN,
        \<lambda>(p, n, px, nx, star, starN). length n - nx]")
     (auto simp: star_rank_take star_rank_same split: option.splits)

declare segMatch_loop.simps [simp del]

definition segMatch :: "string \<Rightarrow> string \<Rightarrow> bool" where
  "segMatch pattern name = segMatch_loop pattern name 0 0 None 0"

text \<open>
  What a segment pattern means: a star stands for any bytes, a question mark for one byte,
  any other byte for itself.
\<close>

fun seg_sem :: "string \<Rightarrow> string \<Rightarrow> bool" where
  "seg_sem [] n = (n = [])"
| "seg_sem (c # p) n =
     (if c = CHR ''*'' then list_ex (\<lambda>k. seg_sem p (drop k n)) [0..<Suc (length n)]
      else (case n of [] \<Rightarrow> False | x # xs \<Rightarrow> (c = CHR ''?'' \<or> c = x) \<and> seg_sem p xs))"

text \<open>The same on indices: the rest of the pattern matches the rest of the name.\<close>

definition sem_at :: "string \<Rightarrow> string \<Rightarrow> nat \<Rightarrow> nat \<Rightarrow> bool" where
  "sem_at p n i j = seg_sem (drop i p) (drop j n)"

lemma sem_at_end: "length p \<le> i \<Longrightarrow> sem_at p n i j \<longleftrightarrow> length n \<le> j"
  by (simp add: sem_at_def)

lemma sem_at_star:
  assumes "i < length p" "p ! i = CHR ''*''" "j \<le> length n"
  shows "sem_at p n i j \<longleftrightarrow> (\<exists>k\<ge>j. k \<le> length n \<and> sem_at p n (Suc i) k)"
proof -
  have "drop i p = CHR ''*'' # drop (Suc i) p" using assms by (metis Cons_nth_drop_Suc)
  then have "sem_at p n i j \<longleftrightarrow> (\<exists>k\<le>length n - j. sem_at p n (Suc i) (j + k))"
    using assms(3) by (simp add: sem_at_def list_ex_upto add.commute del: upt_Suc)
  also have "\<dots> \<longleftrightarrow> (\<exists>k\<ge>j. k \<le> length n \<and> sem_at p n (Suc i) k)"
  proof
    assume "\<exists>k\<le>length n - j. sem_at p n (Suc i) (j + k)"
    then obtain k where "k \<le> length n - j" "sem_at p n (Suc i) (j + k)" by blast
    with assms(3) show "\<exists>k\<ge>j. k \<le> length n \<and> sem_at p n (Suc i) k"
      by (intro exI [of _ "j + k"]) auto
  next
    assume "\<exists>k\<ge>j. k \<le> length n \<and> sem_at p n (Suc i) k"
    then obtain k where "j \<le> k" "k \<le> length n" "sem_at p n (Suc i) k" by blast
    then show "\<exists>k\<le>length n - j. sem_at p n (Suc i) (j + k)"
      by (intro exI [of _ "k - j"]) auto
  qed
  finally show ?thesis .
qed

lemma sem_at_lit:
  assumes "i < length p" "p ! i \<noteq> CHR ''*''"
  shows "sem_at p n i j \<longleftrightarrow> j < length n \<and> (p ! i = CHR ''?'' \<or> p ! i = n ! j) \<and> sem_at p n (Suc i) (Suc j)"
proof -
  have d: "drop i p = p ! i # drop (Suc i) p" using assms by (metis Cons_nth_drop_Suc)
  show ?thesis
  proof (cases "j < length n")
    case True
    then have "drop j n = n ! j # drop (Suc j) n" by (metis Cons_nth_drop_Suc)
    with True d assms show ?thesis by (simp add: sem_at_def)
  next
    case False
    with d assms show ?thesis by (simp add: sem_at_def)
  qed
qed

text \<open>
  A run of literals: the pattern from \<open>a\<close> up to \<open>b\<close> holds no star. Matching from its start at
  \<open>i\<close> is matching each of its bytes and then the rest.
\<close>

definition no_star :: "string \<Rightarrow> nat \<Rightarrow> nat \<Rightarrow> bool" where
  "no_star p a b \<longleftrightarrow> b \<le> length p \<and> (\<forall>t. a \<le> t \<and> t < b \<longrightarrow> p ! t \<noteq> CHR ''*'')"

definition run_matches :: "string \<Rightarrow> string \<Rightarrow> nat \<Rightarrow> nat \<Rightarrow> nat \<Rightarrow> bool" where
  "run_matches p n a b i \<longleftrightarrow> i + (b - a) \<le> length n \<and>
     (\<forall>t. a \<le> t \<and> t < b \<longrightarrow> p ! t = CHR ''?'' \<or> p ! t = n ! (i + (t - a)))"

lemma sem_at_run:
  assumes "a \<le> b" "no_star p a b" "i \<le> length n"
  shows "sem_at p n a i \<longleftrightarrow> run_matches p n a b i \<and> sem_at p n b (i + (b - a))"
  using assms
proof (induction "b - a" arbitrary: a i)
  case 0
  then show ?case by (auto simp: run_matches_def)
next
  case (Suc d)
  then have lt: "a < b" "a < length p" "p ! a \<noteq> CHR ''*''" by (auto simp: no_star_def)
  have ns: "no_star p (Suc a) b" using Suc.prems by (auto simp: no_star_def)
  show ?case
  proof (cases "i < length n \<and> (p ! a = CHR ''?'' \<or> p ! a = n ! i)")
    case False
    then have "\<not> run_matches p n a b i" using lt by (auto simp: run_matches_def)
    with False lt show ?thesis by (auto simp: sem_at_lit)
  next
    case True
    have eq: "Suc i + (b - Suc a) = i + (b - a)" using lt by simp
    have "run_matches p n a b i \<longleftrightarrow> run_matches p n (Suc a) b (Suc i)"
    proof -
      have "(\<forall>t. a \<le> t \<and> t < b \<longrightarrow> p ! t = CHR ''?'' \<or> p ! t = n ! (i + (t - a)))
          \<longleftrightarrow> (\<forall>t. Suc a \<le> t \<and> t < b \<longrightarrow> p ! t = CHR ''?'' \<or> p ! t = n ! (Suc i + (t - Suc a)))"
      proof (intro iffI allI impI)
        fix t
        assume h: "\<forall>t. a \<le> t \<and> t < b \<longrightarrow> p ! t = CHR ''?'' \<or> p ! t = n ! (i + (t - a))"
          and t: "Suc a \<le> t \<and> t < b"
        from t have "Suc i + (t - Suc a) = i + (t - a)" by linarith
        with h t show "p ! t = CHR ''?'' \<or> p ! t = n ! (Suc i + (t - Suc a))" by auto
      next
        fix t
        assume h: "\<forall>t. Suc a \<le> t \<and> t < b \<longrightarrow> p ! t = CHR ''?'' \<or> p ! t = n ! (Suc i + (t - Suc a))"
          and t: "a \<le> t \<and> t < b"
        show "p ! t = CHR ''?'' \<or> p ! t = n ! (i + (t - a))"
        proof (cases "t = a")
          case True
          with \<open>i < length n \<and> _\<close> show ?thesis by simp
        next
          case False
          with t have "Suc i + (t - Suc a) = i + (t - a)" "Suc a \<le> t" by linarith+
          with h t show ?thesis by (metis)
        qed
      qed
      then show ?thesis unfolding run_matches_def eq by simp
    qed
    moreover have "sem_at p n (Suc a) (Suc i) \<longleftrightarrow>
        run_matches p n (Suc a) b (Suc i) \<and> sem_at p n b (Suc i + (b - Suc a))"
      using Suc.hyps(1) [of "Suc a" "Suc i"] Suc.hyps(2) lt ns True by simp
    ultimately show ?thesis using lt True eq by (simp add: sem_at_lit)
  qed
qed

subsection \<open>The loop is the meaning\<close>

text \<open>
  The invariant of the loop: after the last star \<open>s\<close>, taken at \<open>starN\<close>, a run of literals
  has been matched up to \<open>px\<close> and \<open>nx\<close>.
\<close>

definition loop_inv :: "string \<Rightarrow> string \<Rightarrow> nat \<Rightarrow> nat \<Rightarrow> nat option \<Rightarrow> nat \<Rightarrow> bool" where
  "loop_inv p n px nx star starN \<longleftrightarrow> px \<le> length p \<and> nx \<le> length n \<and>
     (case star of None \<Rightarrow> True
      | Some s \<Rightarrow> s < px \<and> p ! s = CHR ''*'' \<and> no_star p (Suc s) px \<and>
          run_matches p n (Suc s) px starN \<and> nx = starN + (px - Suc s))"

text \<open>What the loop still has to decide.\<close>

definition loop_goal :: "string \<Rightarrow> string \<Rightarrow> nat \<Rightarrow> nat \<Rightarrow> nat option \<Rightarrow> nat \<Rightarrow> bool" where
  "loop_goal p n px nx star starN \<longleftrightarrow>
     (case star of None \<Rightarrow> sem_at p n px nx
      | Some s \<Rightarrow> \<exists>k\<ge>starN. k \<le> length n \<and> sem_at p n (Suc s) k)"

lemma stars_only: "dropWhile (\<lambda>c. c = CHR ''*'') p = [] \<longleftrightarrow> seg_sem p []"
  by (induction p) auto

lemma loop_inv_here:
  assumes "loop_inv p n px nx (Some s) starN"
  shows "sem_at p n (Suc s) starN \<longleftrightarrow> sem_at p n px nx"
  using assms by (subst sem_at_run [of "Suc s" px]) (auto simp: loop_inv_def run_matches_def)

text \<open>Starting later cannot end earlier: a match from \<open>k\<close> on passes \<open>px\<close> at or after \<open>nx\<close>.\<close>

lemma loop_inv_later:
  assumes "loop_inv p n px nx (Some s) starN" "starN \<le> k" "k \<le> length n" "sem_at p n (Suc s) k"
  shows "nx + (k - starN) \<le> length n \<and> sem_at p n px (nx + (k - starN))"
proof -
  have "run_matches p n (Suc s) px k \<and> sem_at p n px (k + (px - Suc s))"
    using assms sem_at_run [of "Suc s" px p k n] by (auto simp: loop_inv_def)
  moreover have "k + (px - Suc s) = nx + (k - starN)" using assms(1,2) by (auto simp: loop_inv_def)
  ultimately show ?thesis by (simp add: run_matches_def)
qed

lemma loop_goal_star:
  assumes inv: "loop_inv p n px nx star starN" and star: "px < length p" "p ! px = CHR ''*''"
  shows "loop_goal p n px nx star starN \<longleftrightarrow> loop_goal p n (Suc px) nx (Some px) nx"
proof (cases star)
  case None
  with assms show ?thesis by (simp add: loop_goal_def sem_at_star loop_inv_def)
next
  case (Some s)
  have nx: "nx \<le> length n" "starN \<le> length n"
    using inv Some by (auto simp: loop_inv_def run_matches_def)
  have "(\<exists>k\<ge>starN. k \<le> length n \<and> sem_at p n (Suc s) k) \<longleftrightarrow> sem_at p n px nx"
  proof
    assume "\<exists>k\<ge>starN. k \<le> length n \<and> sem_at p n (Suc s) k"
    then obtain k where k: "starN \<le> k" "k \<le> length n" "sem_at p n (Suc s) k" by blast
    from loop_inv_later [OF inv [unfolded Some] k]
    have le: "nx + (k - starN) \<le> length n" and "sem_at p n px (nx + (k - starN))" by auto
    then obtain k' where "nx + (k - starN) \<le> k'" "k' \<le> length n" "sem_at p n (Suc px) k'"
      using sem_at_star [OF star, of "nx + (k - starN)" n] by blast
    then have "\<exists>k'\<ge>nx. k' \<le> length n \<and> sem_at p n (Suc px) k'" by (intro exI [of _ k']) simp
    then show "sem_at p n px nx" using sem_at_star [OF star, of nx n] nx by simp
  next
    assume "sem_at p n px nx"
    with inv Some have "sem_at p n (Suc s) starN" by (simp add: loop_inv_here)
    with nx show "\<exists>k\<ge>starN. k \<le> length n \<and> sem_at p n (Suc s) k" by blast
  qed
  with Some nx star show ?thesis by (simp add: loop_goal_def sem_at_star)
qed

lemma loop_inv_lit:
  assumes "loop_inv p n px nx star starN" "px < length p" "nx < length n"
    "p ! px = CHR ''?'' \<or> p ! px = n ! nx" "p ! px \<noteq> CHR ''*''"
  shows "loop_inv p n (Suc px) (Suc nx) star starN"
proof (cases star)
  case None
  with assms show ?thesis by (simp add: loop_inv_def)
next
  case (Some s)
  with assms have s: "s < px" "no_star p (Suc s) px" "run_matches p n (Suc s) px starN"
    "nx = starN + (px - Suc s)" by (auto simp: loop_inv_def)
  have "no_star p (Suc s) (Suc px)" using s assms by (auto simp: no_star_def less_Suc_eq)
  moreover have "run_matches p n (Suc s) (Suc px) starN"
    using s assms by (auto simp: run_matches_def less_Suc_eq)
  ultimately show ?thesis using Some assms s by (auto simp: loop_inv_def)
qed

lemma loop_goal_back:
  assumes inv: "loop_inv p n px nx (Some s) starN" and "\<not> sem_at p n px nx" and "starN < length n"
  shows "loop_goal p n px nx (Some s) starN \<longleftrightarrow> loop_goal p n (Suc s) (Suc starN) (Some s) (Suc starN)"
proof -
  have "\<not> sem_at p n (Suc s) starN" using assms by (simp add: loop_inv_here)
  then show ?thesis unfolding loop_goal_def option.simps by (metis Suc_leD Suc_leI le_neq_implies_less)
qed

lemma loop_goal_end:
  assumes inv: "loop_inv p n px (length n) star starN"
  shows "loop_goal p n px (length n) star starN \<longleftrightarrow> sem_at p n px (length n)"
proof (cases star)
  case None
  then show ?thesis by (simp add: loop_goal_def)
next
  case (Some s)
  have "starN \<le> length n" using inv Some by (auto simp: loop_inv_def run_matches_def)
  moreover have "k = starN" if "starN \<le> k" "k \<le> length n" "sem_at p n (Suc s) k" for k
    using loop_inv_later [OF inv [unfolded Some] that] that(1) by linarith
  ultimately show ?thesis using Some loop_inv_here [OF inv [unfolded Some]]
    by (auto simp: loop_goal_def)
qed

lemma segMatch_loop_goal:
  "CHR ''*'' \<notin> set n \<Longrightarrow> loop_inv p n px nx star starN \<Longrightarrow>
     segMatch_loop p n px nx star starN \<longleftrightarrow> loop_goal p n px nx star starN"
proof (induction p n px nx star starN rule: segMatch_loop.induct)
  case (1 p n px nx star starN)
  note inv = "1.prems"(2) and ns = "1.prems"(1)
  have bounds: "px \<le> length p" "nx \<le> length n" using inv by (auto simp: loop_inv_def)
  show ?case
  proof (cases "nx < length n")
    case False
    with bounds have nx: "nx = length n" by simp
    then have "segMatch_loop p n px nx star starN \<longleftrightarrow> dropWhile (\<lambda>c. c = CHR ''*'') (drop px p) = []"
      by (subst segMatch_loop.simps) simp
    also have "\<dots> \<longleftrightarrow> sem_at p n px nx" unfolding stars_only by (simp add: sem_at_def nx)
    finally show ?thesis using loop_goal_end [OF inv [unfolded nx]] unfolding nx by blast
  next
    case nx: True
    let ?lit = "px < length p \<and> (p ! px = CHR ''?'' \<or> p ! px = n ! nx)"
    let ?star = "px < length p \<and> p ! px = CHR ''*''"
    have star_lit: "\<not> (?lit \<and> ?star)" using ns nth_mem [OF nx] by auto
    consider (lit) "?lit" | (star) "\<not> ?lit" "?star" | (no) "\<not> ?lit" "\<not> ?star" by blast
    then show ?thesis
    proof cases
      case lit
      with star_lit have nstar: "p ! px \<noteq> CHR ''*''" by blast
      have eq: "segMatch_loop p n px nx star starN = segMatch_loop p n (Suc px) (Suc nx) star starN"
        using nx lit by (subst segMatch_loop.simps) simp
      have inv': "loop_inv p n (Suc px) (Suc nx) star starN"
        using loop_inv_lit [OF inv _ nx _ nstar] lit by blast
      have "loop_goal p n px nx star starN \<longleftrightarrow> loop_goal p n (Suc px) (Suc nx) star starN"
        using lit nstar nx by (cases star) (auto simp: loop_goal_def sem_at_lit)
      with eq inv' "1.IH"(1) nx lit ns show ?thesis by simp
    next
      case star
      have eq: "segMatch_loop p n px nx star starN = segMatch_loop p n (Suc px) nx (Some px) nx"
        using nx star by (subst segMatch_loop.simps) simp
      have inv': "loop_inv p n (Suc px) nx (Some px) nx"
        using star bounds by (auto simp: loop_inv_def no_star_def run_matches_def)
      show ?thesis using eq inv' "1.IH"(2) nx star ns loop_goal_star [OF inv] by simp
    next
      case no
      have nsem: "\<not> sem_at p n px nx"
        using no nx bounds by (cases "px < length p") (auto simp: sem_at_lit sem_at_end)
      show ?thesis
      proof (cases star)
        case None
        with no nx have "\<not> segMatch_loop p n px nx star starN"
          by (subst segMatch_loop.simps) auto
        with None nsem show ?thesis by (simp add: loop_goal_def)
      next
        case (Some s)
        have eq: "segMatch_loop p n px nx star starN = segMatch_loop p n (Suc s) (Suc starN) star (Suc starN)"
          using nx no Some by (subst segMatch_loop.simps) auto
        have sN: "starN < length n" using inv Some nx by (auto simp: loop_inv_def)
        have inv': "loop_inv p n (Suc s) (Suc starN) star (Suc starN)"
          using inv Some sN by (auto simp: loop_inv_def no_star_def run_matches_def)
        show ?thesis
          using eq inv' "1.IH"(3) nx no Some ns loop_goal_back [OF _ nsem sN] inv by simp
      qed
    qed
  qed
qed

lemma segMatch_sem: "CHR ''*'' \<notin> set n \<Longrightarrow> segMatch p n \<longleftrightarrow> seg_sem p n"
  unfolding segMatch_def
  by (subst segMatch_loop_goal) (auto simp: loop_inv_def loop_goal_def sem_at_def)

text \<open>
  The loop tries the literal comparison before the star, so a star of the pattern that meets a
  star of the name is taken for a literal. A match it reports is a match all the same.
\<close>

lemma segMatch_loop_sound:
  assumes "segMatch_loop p n px nx star starN"
    and "sem_at p n px nx \<longrightarrow> G"
    and "\<And>s k. star = Some s \<Longrightarrow> starN \<le> k \<Longrightarrow> sem_at p n (Suc s) k \<Longrightarrow> k \<le> length n \<Longrightarrow> G"
    and "nx \<le> length n" "star \<noteq> None \<longrightarrow> starN \<le> nx"
  shows "G"
  using assms
proof (induction p n px nx star starN rule: segMatch_loop.induct)
  case (1 p n px nx star starN)
  note run = "1.prems"(1) and here = "1.prems"(2) and later = "1.prems"(3)
  show ?case
  proof (cases "nx < length n")
    case False
    with "1.prems"(4) have nx: "nx = length n" by simp
    with run have "dropWhile (\<lambda>c. c = CHR ''*'') (drop px p) = []"
      by (subst (asm) segMatch_loop.simps) simp
    then have "sem_at p n px nx" unfolding stars_only by (simp add: sem_at_def nx)
    with here show ?thesis by blast
  next
    case nx: True
    let ?lit = "px < length p \<and> (p ! px = CHR ''?'' \<or> p ! px = n ! nx)"
    let ?star = "px < length p \<and> p ! px = CHR ''*''"
    consider (lit) "?lit" | (star) "\<not> ?lit" "?star" | (no) "\<not> ?lit" "\<not> ?star" by blast
    then show ?thesis
    proof cases
      case lit
      have run': "segMatch_loop p n (px + 1) (nx + 1) star starN"
        using run nx lit by (subst (asm) segMatch_loop.simps) simp
      have "sem_at p n (px + 1) (nx + 1) \<longrightarrow> sem_at p n px nx"
      proof
        assume s: "sem_at p n (px + 1) (nx + 1)"
        show "sem_at p n px nx"
        proof (cases "p ! px = CHR ''*''")
          case True
          with s lit nx sem_at_star [of px p nx n] show ?thesis
            by (auto intro!: exI [of _ "Suc nx"])
        next
          case False
          with s lit nx show ?thesis by (simp add: sem_at_lit)
        qed
      qed
      with here have "sem_at p n (px + 1) (nx + 1) \<longrightarrow> G" by blast
      moreover have "star \<noteq> None \<longrightarrow> starN \<le> nx + 1" using "1.prems"(5) by auto
      ultimately show ?thesis using "1.IH"(1) [OF nx lit run' _ later] nx by simp
    next
      case star
      have run': "segMatch_loop p n (px + 1) nx (Some px) nx"
        using run nx star by (subst (asm) segMatch_loop.simps) simp
      have up: "G" if "nx \<le> k" "k \<le> length n" "sem_at p n (Suc px) k" for k
        using that here star sem_at_star [of px p nx n] nx by auto
      show ?thesis
      proof (rule "1.IH"(2) [OF nx star run'])
        show "sem_at p n (px + 1) nx \<longrightarrow> G" using up [of nx] nx by simp
      next
        fix s k
        assume "Some px = Some s" "nx \<le> k" "sem_at p n (Suc s) k" "k \<le> length n"
        then show "G" using up by simp
      qed (use nx in simp_all)
    next
      case no
      then obtain s where s: "star = Some s"
        using run nx by (subst (asm) segMatch_loop.simps) (auto split: option.splits)
      have run': "segMatch_loop p n (s + 1) (starN + 1) star (starN + 1)"
        using run nx no s by (subst (asm) segMatch_loop.simps) auto
      have le: "starN + 1 \<le> length n" using "1.prems"(5) s nx by simp
      show ?thesis
      proof (rule "1.IH"(3) [OF nx no s run'])
        show "sem_at p n (s + 1) (starN + 1) \<longrightarrow> G" using later [OF s, of "starN + 1"] le by simp
      next
        fix s' k
        assume "star = Some s'" "starN + 1 \<le> k" "sem_at p n (Suc s') k" "k \<le> length n"
        then show "G" using later [of s' k] by simp
      qed (use le in simp_all)
    qed
  qed
qed

lemma segMatch_sound: "segMatch p n \<Longrightarrow> seg_sem p n"
  unfolding segMatch_def
  by (rule segMatch_loop_sound [where G = "seg_sem p n" and px = 0 and nx = 0 and star = None])
     (auto simp: sem_at_def)

text \<open>A pattern without wildcards matches itself and nothing else.\<close>

definition wildcard_free :: "string \<Rightarrow> bool" where
  "wildcard_free p \<longleftrightarrow> CHR ''*'' \<notin> set p \<and> CHR ''?'' \<notin> set p"

lemma wildcard_free_simps [simp]:
  "wildcard_free []"
  "wildcard_free (c # p) \<longleftrightarrow> c \<noteq> CHR ''*'' \<and> c \<noteq> CHR ''?'' \<and> wildcard_free p"
  by (auto simp: wildcard_free_def)

lemma seg_sem_literal: "wildcard_free p \<Longrightarrow> seg_sem p n \<longleftrightarrow> p = n"
  by (induction p arbitrary: n) (auto split: list.splits)

lemma seg_sem_star_literal:
  assumes "wildcard_free ext"
  shows "seg_sem (CHR ''*'' # ext) n \<longleftrightarrow> suffix ext n"
proof -
  have "seg_sem (CHR ''*'' # ext) n \<longleftrightarrow> (\<exists>k\<le>length n. ext = drop k n)"
    using assms by (simp add: list_ex_upto seg_sem_literal del: upt_Suc)
  also have "\<dots> \<longleftrightarrow> suffix ext n"
    by (metis append_eq_conv_conj le_add1 length_append suffix_def suffix_drop)
  finally show ?thesis .
qed

lemma seg_sem_literal_star: "wildcard_free ini \<Longrightarrow> seg_sem (ini @ ''*'') n \<longleftrightarrow> prefix ini n"
proof (induction ini arbitrary: n)
  case Nil
  have "seg_sem ''*'' n \<longleftrightarrow> (\<exists>k\<le>length n. drop k n = [])"
    by (simp add: list_ex_upto del: upt_Suc)
  then show ?case by auto
next
  case (Cons c cs)
  then show ?case by (cases n) auto
qed

lemma segMatch_loop_literal:
  "wildcard_free (drop px p) \<Longrightarrow> px \<le> length p \<Longrightarrow> nx \<le> length n \<Longrightarrow>
     segMatch_loop p n px nx None starN \<longleftrightarrow> drop px p = drop nx n"
proof (induction "length n - nx" arbitrary: px nx)
  case 0
  then have "nx = length n" by simp
  moreover have "dropWhile (\<lambda>c. c = CHR ''*'') (drop px p) = drop px p"
    using 0(2) by (cases "drop px p") auto
  ultimately show ?case by (subst segMatch_loop.simps) simp
next
  case (Suc d)
  then have nx: "nx < length n" by simp
  show ?case
  proof (cases "px < length p")
    case False
    with Suc.prems nx show ?thesis by (subst segMatch_loop.simps) auto
  next
    case px: True
    then have dp: "drop px p = p ! px # drop (Suc px) p" by (metis Cons_nth_drop_Suc)
    from Suc.prems(1) have nw: "p ! px \<noteq> CHR ''*''" "p ! px \<noteq> CHR ''?''"
      and free: "wildcard_free (drop (Suc px) p)" unfolding dp by simp_all
    have eq: "drop px p = drop nx n \<longleftrightarrow> p ! px = n ! nx \<and> drop (Suc px) p = drop (Suc nx) n"
      unfolding dp using nx by (metis Cons_nth_drop_Suc list.inject)
    show ?thesis
    proof (cases "p ! px = n ! nx")
      case True
      have "segMatch_loop p n px nx None starN = segMatch_loop p n (Suc px) (Suc nx) None starN"
        using px nx True by (subst segMatch_loop.simps) simp
      with Suc.hyps(1) [of "Suc nx" "Suc px"] Suc.hyps(2) free px nx True eq show ?thesis by simp
    next
      case False
      with nw px nx eq show ?thesis by (subst segMatch_loop.simps) simp
    qed
  qed
qed

lemma segMatch_literal: "wildcard_free p \<Longrightarrow> segMatch p n \<longleftrightarrow> p = n"
  by (simp add: segMatch_def segMatch_loop_literal)

section \<open>A path\<close>

text \<open>The search of a needle at the start of the path and after each slash.\<close>

function needle_loop :: "string \<Rightarrow> string \<Rightarrow> nat \<Rightarrow> bool" where
  "needle_loop needle rel off =
     (if off \<le> length rel then
        let rest = drop off rel in
        if rest = needle then True
        else if length needle < length rest \<and> HasPrefix rest needle \<and> rest ! length needle = slash
        then True
        else (case IndexByte rest (slash) of
                None \<Rightarrow> False
              | Some i \<Rightarrow> needle_loop needle rel (off + (i + 1)))
      else False)"
  by pat_completeness auto
termination
  by (relation "measure (\<lambda>(needle, rel, off). Suc (length rel) - off)") auto

declare needle_loop.simps [simp del]

fun segs_match :: "string list \<Rightarrow> string list \<Rightarrow> bool" where
  "segs_match (p # ps) (n # ns) =
     (if p = ''**'' then True else if \<not> segMatch p n then False else segs_match ps ns)"
| "segs_match _ _ = True"

definition globMatch :: "string \<Rightarrow> string \<Rightarrow> bool" where
  "globMatch pattern rel =
     (if pattern = ''**'' then True
      else if HasSuffix pattern ''/**'' then
        let prefx = take (length pattern - 3) pattern in
        if HasPrefix prefx ''**/'' then
          let needle = drop 3 prefx in
          if needle = '''' then True else needle_loop needle rel 0
        else if length rel < length prefx \<or> \<not> HasPrefix rel prefx then False
        else length rel = length prefx \<or> rel ! length prefx = slash
      else
        let ps = Split pattern (slash); ns = Split rel (slash) in
        if length ps \<noteq> length ns then
          (if length ps \<ge> length ns then False
           else segs_match ps (drop (length ns - length ps) ns))
        else segs_match ps ns)"

subsection \<open>The four shapes of pattern\<close>

lemma needle_here:
  "rest = needle \<or> (length needle < length rest \<and> HasPrefix rest needle \<and> rest ! length needle = c)
   \<longleftrightarrow> prefix (split_on c needle) (split_on c rest)"
  unfolding prefix_split_on prefix_sep ..

lemma needle_loop_step:
  assumes "off \<le> length rel"
  shows "needle_loop needle rel off \<longleftrightarrow>
     prefix (Split needle slash) (Split (drop off rel) slash) \<or>
     (\<exists>i. IndexByte (drop off rel) slash = Some i \<and> needle_loop needle rel (off + (i + 1)))"
  using assms unfolding needle_here [of "drop off rel" needle, symmetric]
  by (subst needle_loop.simps) (auto simp: Let_def split: option.splits)

text \<open>The needle is found exactly when its elements are consecutive elements of the path.\<close>

lemma needle_loop_sem:
  "off \<le> length rel \<Longrightarrow> needle_loop needle rel off \<longleftrightarrow>
     sublist (Split needle slash) (Split (drop off rel) slash)"
proof (induction "length rel - off" arbitrary: off rule: less_induct)
  case less
  let ?rest = "drop off rel"
  show ?case
  proof (cases "IndexByte ?rest slash")
    case None
    then have "Split ?rest slash = [?rest]" by (simp add: IndexByte_None split_on_single)
    with None less.prems show ?thesis
      by (simp add: needle_loop_step sublist_Cons_right [of _ ?rest "[]"])
  next
    case (Some i)
    from IndexByte_SomeD [OF Some] have i: "i < length ?rest" "slash \<notin> set (take i ?rest)"
      and rest: "?rest = take i ?rest @ slash # drop (Suc i) ?rest" by auto
    have split: "Split ?rest slash = take i ?rest # Split (drop (off + (i + 1)) rel) slash"
      using i(2) by (subst rest) (simp add: split_on_sep drop_drop add.commute del: drop_append)
    have "needle_loop needle rel (off + (i + 1)) \<longleftrightarrow>
        sublist (Split needle slash) (Split (drop (off + (i + 1)) rel) slash)"
      using i(1) less.prems by (intro less.hyps) auto
    with Some less.prems show ?thesis
      by (simp add: needle_loop_step split sublist_Cons_right)
  qed
qed

lemma globMatch_anywhere:
  "needle \<noteq> '''' \<Longrightarrow> globMatch (''**/'' @ needle @ ''/**'') rel \<longleftrightarrow>
     sublist (Split needle slash) (Split rel slash)"
proof -
  assume ne: "needle \<noteq> ''''"
  have "suffix ''/**'' (''**/'' @ needle @ ''/**'')" by (simp add: suffix_def)
  moreover have "take (length (''**/'' @ needle @ ''/**'') - 3) (''**/'' @ needle @ ''/**'') = ''**/'' @ needle"
    by simp
  ultimately show ?thesis
    using ne needle_loop_sem [of 0 rel needle] by (simp add: globMatch_def Let_def)
qed

text \<open>A trailing \<^verbatim>\<open>/**\<close> after a plain prefix: the prefix itself and what is below it.\<close>

lemma globMatch_below:
  assumes "\<not> HasPrefix prefx ''**/''"
  shows "globMatch (prefx @ ''/**'') rel \<longleftrightarrow> prefix (Split prefx slash) (Split rel slash)"
proof -
  have "suffix ''/**'' (prefx @ ''/**'')" by (simp add: suffix_def)
  moreover have "prefx @ ''/**'' \<noteq> ''**''" by (cases prefx) auto
  ultimately have "globMatch (prefx @ ''/**'') rel \<longleftrightarrow>
      length prefx \<le> length rel \<and> prefix prefx rel \<and>
      (length rel = length prefx \<or> rel ! length prefx = slash)"
    using assms by (simp add: globMatch_def Let_def linorder_not_less)
  also have "\<dots> \<longleftrightarrow> rel = prefx \<or> prefix (prefx @ [slash]) rel"
    unfolding prefix_sep [symmetric]
    by (auto simp: prefix_length_le prefix_def)
  finally show ?thesis by (simp add: prefix_split_on)
qed

text \<open>
  A pattern with no double star: its elements, one by one, against as many last elements of
  the path.
\<close>

lemma segs_match_all2:
  "length ps = length ns \<Longrightarrow> ''**'' \<notin> set ps \<Longrightarrow> segs_match ps ns \<longleftrightarrow> list_all2 segMatch ps ns"
  by (induction ps ns rule: segs_match.induct) (auto split: if_splits)

definition last_segs :: "nat \<Rightarrow> string list \<Rightarrow> string list" where
  "last_segs k ns = drop (length ns - k) ns"

lemma suffix_last_segs: "suffix ss ns \<Longrightarrow> ss = last_segs (length ss) ns"
  by (auto simp: suffix_def last_segs_def)

lemma globMatch_segs:
  assumes "pattern \<noteq> ''**''" "\<not> HasSuffix pattern ''/**''"
  shows "globMatch pattern rel \<longleftrightarrow> length (Split pattern slash) \<le> length (Split rel slash) \<and>
     segs_match (Split pattern slash) (last_segs (length (Split pattern slash)) (Split rel slash))"
  using assms by (auto simp: globMatch_def Let_def last_segs_def)

lemma not_double_star:
  "''**'' \<notin> set (Split pattern slash) \<Longrightarrow> pattern \<noteq> ''**'' \<and> \<not> HasSuffix pattern ''/**''"
  by (auto simp: suffix_def split_on_append)

lemma globMatch_plain:
  assumes "''**'' \<notin> set (Split pattern slash)"
  shows "globMatch pattern rel \<longleftrightarrow>
     (\<exists>ss. suffix ss (Split rel slash) \<and> list_all2 segMatch (Split pattern slash) ss)"
proof -
  let ?ps = "Split pattern slash" and ?ns = "Split rel slash"
  have "globMatch pattern rel \<longleftrightarrow> length ?ps \<le> length ?ns \<and> list_all2 segMatch ?ps (last_segs (length ?ps) ?ns)"
    using not_double_star [OF assms] assms
    by (auto simp: globMatch_segs segs_match_all2 last_segs_def)
  also have "\<dots> \<longleftrightarrow> (\<exists>ss. suffix ss ?ns \<and> list_all2 segMatch ?ps ss)"
  proof
    assume "length ?ps \<le> length ?ns \<and> list_all2 segMatch ?ps (last_segs (length ?ps) ?ns)"
    then show "\<exists>ss. suffix ss ?ns \<and> list_all2 segMatch ?ps ss"
      by (metis last_segs_def suffix_drop)
  next
    assume "\<exists>ss. suffix ss ?ns \<and> list_all2 segMatch ?ps ss"
    then obtain ss where ss: "suffix ss ?ns" "list_all2 segMatch ?ps ss" by blast
    then have "length ss = length ?ps" by (simp add: list_all2_lengthD)
    with ss show "length ?ps \<le> length ?ns \<and> list_all2 segMatch ?ps (last_segs (length ?ps) ?ns)"
      using suffix_last_segs [OF ss(1)] suffix_length_le [OF ss(1)] by simp
  qed
  finally show ?thesis .
qed

text \<open>A pattern of one segment is compared with the last element alone.\<close>

lemma globMatch_name:
  assumes "slash \<notin> set pattern" "pattern \<noteq> ''**''"
  shows "globMatch pattern rel \<longleftrightarrow> segMatch pattern (last (Split rel slash))"
proof -
  have sp: "Split pattern slash = [pattern]" using assms by (simp add: split_on_single)
  have "globMatch pattern rel \<longleftrightarrow> (\<exists>ss. suffix ss (Split rel slash) \<and> list_all2 segMatch [pattern] ss)"
    using assms by (subst globMatch_plain) (auto simp: sp)
  also have "\<dots> \<longleftrightarrow> segMatch pattern (last (Split rel slash))"
  proof
    assume "\<exists>ss. suffix ss (Split rel slash) \<and> list_all2 segMatch [pattern] ss"
    then obtain s where "suffix [s] (Split rel slash)" "segMatch pattern s"
      by (auto simp: list_all2_Cons1)
    then show "segMatch pattern (last (Split rel slash))" by (auto simp: suffix_def)
  next
    assume "segMatch pattern (last (Split rel slash))"
    moreover have "suffix [last (Split rel slash)] (Split rel slash)"
      unfolding suffix_def by (metis append_butlast_last_id split_on_not_Nil)
    ultimately show "\<exists>ss. suffix ss (Split rel slash) \<and> list_all2 segMatch [pattern] ss" by auto
  qed
  finally show ?thesis .
qed

text \<open>
  A leading \<^verbatim>\<open>**/\<close> without a trailing \<^verbatim>\<open>/**\<close>: the first segment already answers yes, so the
  rest of the pattern only counts elements.
\<close>

lemma globMatch_leading:
  assumes "\<not> HasSuffix rest ''/**''" "rest \<noteq> ''**''"
  shows "globMatch (''**/'' @ rest) rel \<longleftrightarrow> length (Split rest slash) < length (Split rel slash)"
proof -
  have sp: "Split (''**/'' @ rest) slash = ''**'' # Split rest slash"
    using split_on_sep [of slash "''**''" rest] by simp
  have "\<not> HasSuffix (''**/'' @ rest) ''/**''"
  proof
    assume "HasSuffix (''**/'' @ rest) ''/**''"
    then obtain xs where xs: "''/**'' = xs @ rest" "HasSuffix ''**/'' xs"
      using assms suffix_append [of "''/**''" "''**/''" rest] by metis
    then show False using assms by (auto simp: suffix_Cons Cons_eq_append_conv)
  qed
  moreover have "segs_match (''**'' # Split rest slash) ns" for ns by (cases ns) auto
  ultimately show ?thesis
    using globMatch_segs [of "''**/'' @ rest" rel] unfolding sp by (auto simp: Suc_le_eq)
qed

section \<open>The interface of a path matcher\<close>

text \<open>
  What the policy asks of the matcher: how a pattern of one segment and a pattern that looks for
  a directory anywhere decide, and what the segment matcher underneath promises. What follows
  for the patterns of the built-in secret list is proved from these laws alone.
\<close>

locale path_matcher =
  fixes matches :: "string \<Rightarrow> string \<Rightarrow> bool"
    and seg :: "string \<Rightarrow> string \<Rightarrow> bool"
  assumes by_name: "slash \<notin> set p \<Longrightarrow> p \<noteq> ''**'' \<Longrightarrow> matches p rel \<longleftrightarrow> seg p (last (Split rel slash))"
    and anywhere: "needle \<noteq> '''' \<Longrightarrow>
      matches (''**/'' @ needle @ ''/**'') rel \<longleftrightarrow> sublist (Split needle slash) (Split rel slash)"
    and seg_literal: "wildcard_free p \<Longrightarrow> seg p n \<longleftrightarrow> p = n"
    and seg_meaning: "CHR ''*'' \<notin> set n \<Longrightarrow> seg p n \<longleftrightarrow> seg_sem p n"
begin

lemma literal_name:
  "wildcard_free p \<Longrightarrow> slash \<notin> set p \<Longrightarrow> matches p rel \<longleftrightarrow> last (Split rel slash) = p"
proof -
  assume p: "wildcard_free p" "slash \<notin> set p"
  then have "p \<noteq> ''**''" by (metis list.set_intros(1) wildcard_free_def)
  with p show ?thesis using by_name [of p rel] seg_literal [of p "last (Split rel slash)"] by metis
qed

lemma ending:
  assumes "wildcard_free ext" "ext \<noteq> ''*''" "slash \<notin> set ext" "CHR ''*'' \<notin> set (last (Split rel slash))"
  shows "matches (CHR ''*'' # ext) rel \<longleftrightarrow> suffix ext (last (Split rel slash))"
  using assms by_name [of "CHR ''*'' # ext" rel] by (simp add: seg_meaning seg_sem_star_literal del: seg_sem.simps)

lemma beginning:
  assumes "wildcard_free ini" "ini \<noteq> ''''" "slash \<notin> set ini" "CHR ''*'' \<notin> set (last (Split rel slash))"
  shows "matches (ini @ ''*'') rel \<longleftrightarrow> prefix ini (last (Split rel slash))"
proof -
  have "ini @ ''*'' \<noteq> ''**''" using assms(1) by auto
  with assms by_name [of "ini @ ''*''" rel] show ?thesis
    by (simp add: seg_meaning seg_sem_literal_star)
qed

lemma directory:
  assumes "needle \<noteq> ''''" "slash \<notin> set needle"
  shows "matches (''**/'' @ needle @ ''/**'') rel \<longleftrightarrow> needle \<in> set (Split rel slash)"
  using assms anywhere [of needle rel]
  by (simp only: split_on_single) (simp add: sublist_def in_set_conv_decomp)

end

interpretation glob: path_matcher globMatch segMatch
  by unfold_locales (rule globMatch_name globMatch_anywhere segMatch_literal segMatch_sem; assumption)+

section \<open>Properties\<close>

text \<open>
  Property C11: the segment matcher, with its single remembered star, never matches more than the
  declarative meaning of the pattern; and on a name that holds no star byte it decides exactly that
  meaning.
\<close>
theorem segMatch_decides:
  "(segMatch pattern name \<longrightarrow> seg_sem pattern name) \<and>
   (CHR ''*'' \<notin> set name \<longrightarrow> (segMatch pattern name \<longleftrightarrow> seg_sem pattern name))"
  using segMatch_sound [of pattern name] segMatch_sem [of name pattern] by blast

theorem segMatch_decides_witness:
  "(segMatch ''k*y.?em'' ''key-2.pem'' \<longleftrightarrow> seg_sem ''k*y.?em'' ''key-2.pem'') \<and> seg_sem ''*.pem'' ''tls-key.pem''"
proof
  show "segMatch ''k*y.?em'' ''key-2.pem'' \<longleftrightarrow> seg_sem ''k*y.?em'' ''key-2.pem''"
    using segMatch_decides [of "''k*y.?em''" "''key-2.pem''"] by simp
  have "segMatch ''*.pem'' ''tls-key.pem''" by (subst segMatch_sem) simp_all
  with segMatch_decides [of "''*.pem''" "''tls-key.pem''"] show "seg_sem ''*.pem'' ''tls-key.pem''" by blast
qed

text \<open>
  It does match too little. A pattern that is a star and then plain bytes, such as
  \<^verbatim>\<open>*.pem\<close>, matches a name that begins with a star byte only when the two are the same, because
  the loop compares the two star bytes as literals first and remembers no star; its meaning asks
  for the ending only. The file \<^verbatim>\<open>*key.pem\<close> is not caught by the glob \<^verbatim>\<open>*.pem\<close>.
\<close>
theorem segMatch_star_named_gap:
  assumes "wildcard_free ext"
  shows "(segMatch (CHR ''*'' # ext) (CHR ''*'' # name) \<longleftrightarrow> name = ext) \<and>
     (seg_sem (CHR ''*'' # ext) (CHR ''*'' # name) \<longleftrightarrow> HasSuffix (CHR ''*'' # name) ext)"
proof
  have "segMatch (CHR ''*'' # ext) (CHR ''*'' # name)
      = segMatch_loop (CHR ''*'' # ext) (CHR ''*'' # name) 1 1 None 0"
    unfolding segMatch_def by (subst segMatch_loop.simps) simp
  with assms show "segMatch (CHR ''*'' # ext) (CHR ''*'' # name) \<longleftrightarrow> name = ext"
    by (auto simp: segMatch_loop_literal)
  show "seg_sem (CHR ''*'' # ext) (CHR ''*'' # name) \<longleftrightarrow> HasSuffix (CHR ''*'' # name) ext"
    using assms by (rule seg_sem_star_literal)
qed

theorem segMatch_star_named_gap_witness:
  "\<not> segMatch ''*.pem'' ''*key.pem'' \<and> seg_sem ''*.pem'' ''*key.pem''"
  using segMatch_star_named_gap [of "''.pem''" "''key.pem''"] by (simp add: suffix_def)

text \<open>
  Property C20: a pattern \<^verbatim>\<open>**/needle/**\<close> matches exactly the paths in which the elements of the
  needle occur one after the other, at the top, at the end or anywhere between.
\<close>
theorem globMatch_anywhere_iff:
  assumes "needle \<noteq> ''''"
  shows "globMatch (''**/'' @ needle @ ''/**'') rel \<longleftrightarrow>
     (\<exists>before after. Split rel slash = before @ Split needle slash @ after)"
  using globMatch_anywhere [OF assms] by (simp add: sublist_def)

theorem globMatch_anywhere_iff_witness:
  "globMatch (''**/'' @ ''secrets'' @ ''/**'') ''a/secrets/dump.sql''"
proof -
  have "Split ''a/secrets/dump.sql'' slash = [''a''] @ Split ''secrets'' slash @ [''dump.sql'']"
    by simp
  then show ?thesis using globMatch_anywhere_iff [of "''secrets''"] by blast
qed

text \<open>
  A pattern without double stars matches exactly the paths whose last elements match
  the segments of the pattern one by one, at any depth.
\<close>
theorem globMatch_segments_iff:
  assumes "''**'' \<notin> set (Split pattern slash)"
  shows "globMatch pattern rel \<longleftrightarrow>
     (\<exists>ss. suffix ss (Split rel slash) \<and> list_all2 segMatch (Split pattern slash) ss)"
  using assms by (rule globMatch_plain)

theorem globMatch_segments_iff_witness: "globMatch ''tls/*.pem'' ''etc/tls/a.pem''"
proof -
  have "segMatch ''tls'' ''tls''" "segMatch ''*.pem'' ''a.pem''" by (simp_all add: segMatch_sem)
  then have "list_all2 segMatch (Split ''tls/*.pem'' slash) [''tls'', ''a.pem'']" by simp
  moreover have "suffix [''tls'', ''a.pem''] (Split ''etc/tls/a.pem'' slash)"
    by (simp add: suffix_def)
  ultimately show ?thesis using globMatch_segments_iff [of "''tls/*.pem''"] by auto
qed

text \<open>
  A leading \<^verbatim>\<open>**/\<close> with no trailing \<^verbatim>\<open>/**\<close> does not match the rest of the
  pattern at any depth: it matches every path with more elements than the rest has segments,
  whatever they are, and no path with fewer or as many.
\<close>
theorem globMatch_leading_counts:
  assumes "\<not> HasSuffix rest ''/**''" "rest \<noteq> ''**''"
  shows "globMatch (''**/'' @ rest) rel \<longleftrightarrow> length (Split rest slash) < length (Split rel slash)"
  using assms by (rule globMatch_leading)

theorem globMatch_leading_counts_witness:
  "\<not> globMatch (''**/'' @ ''id_rsa'') ''id_rsa'' \<and> globMatch (''**/'' @ ''id_rsa'') ''src/main.go''"
  using globMatch_leading_counts [of "''id_rsa''" "''id_rsa''"]
    globMatch_leading_counts [of "''id_rsa''" "''src/main.go''"]
  by (simp add: suffix_def)

end
