(* ===== verification/Go_Filepath.thy ===== *)
theory Go_Filepath
  imports Go_Strings
begin

text \<open>
  Go's \<^verbatim>\<open>path/filepath\<close> on Unix: the separator is a slash and \<^verbatim>\<open>ToSlash\<close> is the identity.
  \<open>Clean\<close> is given on the elements of a path with the stack of elements kept so far.
  The lemmas say what a clean path looks like, that cleaning is idempotent, and that
  \<open>Rel\<close> from a directory to a path below it is the rest of the path.
\<close>

section \<open>Paths\<close>


definition IsAbs :: "string \<Rightarrow> bool" where
  "IsAbs s \<longleftrightarrow> prefix ''/'' s"

text \<open>The stack \<open>st\<close> holds the kept elements, the last one first.\<close>

fun clean_stack :: "bool \<Rightarrow> string list \<Rightarrow> string list \<Rightarrow> string list" where
  "clean_stack rooted st [] = rev st"
| "clean_stack rooted st (c # cs) =
     (if c = '''' \<or> c = ''.'' then clean_stack rooted st cs
      else if c = ''..'' then
        (case st of
           t # ts \<Rightarrow> if t = ''..'' then clean_stack rooted (''..'' # st) cs
                     else clean_stack rooted ts cs
         | [] \<Rightarrow> if rooted then clean_stack rooted [] cs
                 else clean_stack rooted [''..''] cs)
      else clean_stack rooted (c # st) cs)"

definition clean_elems :: "string \<Rightarrow> string list" where
  "clean_elems s = clean_stack (IsAbs s) [] (Split s slash)"

definition Clean :: "string \<Rightarrow> string" where
  "Clean s =
     (if IsAbs s then slash # join_with slash (clean_elems s)
      else if clean_elems s = [] then ''.''
      else join_with slash (clean_elems s))"

definition ToSlash :: "string \<Rightarrow> string" where "ToSlash s = s"

lemma ToSlash_id [simp]: "ToSlash s = s"
  by (simp add: ToSlash_def)

definition Join :: "string list \<Rightarrow> string" where
  "Join es = (let rest = dropWhile (\<lambda>e. e = '''') es
     in if rest = [] then '''' else Clean (join_with slash rest))"

text \<open>The part of a path after its last slash.\<close>

definition last_elem :: "string \<Rightarrow> string" where
  "last_elem s = last (Split s slash)"

definition Base :: "string \<Rightarrow> string" where
  "Base s =
     (if s = '''' then ''.''
      else let t = TrimRight s slash in if t = '''' then ''/'' else last_elem t)"

definition Dir :: "string \<Rightarrow> string" where
  "Dir s = Clean (take (length s - length (last_elem s)) s)"

text \<open>\<^verbatim>\<open>Ext\<close>: from the last dot of the last element, or the empty string.\<close>

definition Ext :: "string \<Rightarrow> string" where
  "Ext s = (let e = last_elem s in
     if CHR ''.'' \<in> set e then CHR ''.'' # last (Split e (CHR ''.'')) else '''')"

definition Abs :: "string \<Rightarrow> string \<Rightarrow> string" where
  "Abs cwd s = (if IsAbs s then Clean s else Join [cwd, s])"

text \<open>
  \<^verbatim>\<open>Rel\<close> drops the common elements; it fails when only one of the paths is rooted, or when
  the first element of the base that is left over, and compared, is \<^verbatim>\<open>..\<close>.
\<close>

fun strip_common :: "string list \<Rightarrow> string list \<Rightarrow> string list \<times> string list" where
  "strip_common (b # bs) (t # ts) = (if b = t then strip_common bs ts else (b # bs, t # ts))"
| "strip_common bs ts = (bs, ts)"

definition rel_elems :: "string \<Rightarrow> string list" where
  "rel_elems s = (if \<not> IsAbs s \<and> clean_elems s = [] then [''.''] else clean_elems s)"

definition Rel :: "string \<Rightarrow> string \<Rightarrow> string option" where
  "Rel base targ =
     (if Clean base = Clean targ then Some ''.''
      else if IsAbs base \<noteq> IsAbs targ then None
      else let (bs, ts) = strip_common (clean_elems base) (rel_elems targ) in
        if bs \<noteq> [] \<and> ts \<noteq> [] \<and> hd bs = ''..'' then None
        else Some (join_with slash (replicate (length bs) ''..'' @ ts)))"

section \<open>What cleaning gives\<close>

text \<open>An element a clean path may hold anywhere.\<close>

definition plain_elem :: "string \<Rightarrow> bool" where
  "plain_elem c \<longleftrightarrow> c \<noteq> '''' \<and> c \<noteq> ''.'' \<and> c \<noteq> ''..'' \<and> slash \<notin> set c"

lemma not_plain_up [simp]: "\<not> plain_elem ''..''"
  by (simp add: plain_elem_def)

text \<open>The elements of a clean path: some \<^verbatim>\<open>..\<close> (none when rooted), then plain ones.\<close>

definition clean_form :: "bool \<Rightarrow> string list \<Rightarrow> bool" where
  "clean_form rooted es \<longleftrightarrow>
     (\<exists>n ps. es = replicate n ''..'' @ ps \<and> (rooted \<longrightarrow> n = 0) \<and> (\<forall>p \<in> set ps. plain_elem p))"

lemma clean_form_Nil [simp]: "clean_form r []"
  by (simp add: clean_form_def)

lemma clean_formI:
  "es = replicate n ''..'' @ ps \<Longrightarrow> (r \<longrightarrow> n = 0) \<Longrightarrow> (\<forall>p \<in> set ps. plain_elem p) \<Longrightarrow> clean_form r es"
  unfolding clean_form_def
  by (rule exI [where x = n], rule exI [where x = ps], intro conjI; assumption)

lemma clean_formE:
  assumes "clean_form r es"
  obtains n ps where "es = replicate n ''..'' @ ps" "r \<longrightarrow> n = 0" "\<forall>p \<in> set ps. plain_elem p"
  using assms unfolding clean_form_def by blast

lemma clean_form_snoc_plain:
  assumes "clean_form r es" "plain_elem c" shows "clean_form r (es @ [c])"
  using assms(1)
proof (rule clean_formE)
  fix n ps
  assume es: "es = replicate n ''..'' @ ps" "r \<longrightarrow> n = 0" and ps: "\<forall>p \<in> set ps. plain_elem p"
  show ?thesis
  proof (rule clean_formI [OF _ es(2)])
    show "es @ [c] = replicate n ''..'' @ (ps @ [c])" using es(1) by simp
    show "\<forall>p \<in> set (ps @ [c]). plain_elem p" using ps assms(2) by simp
  qed
qed

lemma clean_form_snoc_up:
  assumes "clean_form False es" "es = [] \<or> last es = ''..''"
  shows "clean_form False (es @ [''..''])"
  using assms(1)
proof (rule clean_formE)
  fix n ps
  assume es: "es = replicate n ''..'' @ ps" and ps: "\<forall>p \<in> set ps. plain_elem p"
  have "ps = []"
  proof (rule ccontr)
    assume "ps \<noteq> []"
    with es assms(2) have "last ps = ''..''" by simp
    with \<open>ps \<noteq> []\<close> have "''..'' \<in> set ps" by (metis last_in_set)
    with ps have "plain_elem ''..''" by metis
    then show False by simp
  qed
  with es have "es @ [''..''] = replicate (Suc n) ''..'' @ []"
    by (simp add: replicate_append_same)
  then show ?thesis by (rule clean_formI) simp_all
qed

lemma clean_form_butlast:
  assumes "clean_form r (es @ [t])" "t \<noteq> ''..''" shows "clean_form r es"
  using assms(1)
proof (rule clean_formE)
  fix n ps
  assume es: "es @ [t] = replicate n ''..'' @ ps" "r \<longrightarrow> n = 0" and ps: "\<forall>p \<in> set ps. plain_elem p"
  have "ps \<noteq> []"
  proof
    assume "ps = []"
    with es(1) have "t \<in> set (replicate n ''..'')" by (metis append_Nil2 in_set_conv_decomp)
    with assms(2) show False by (simp split: if_splits)
  qed
  then obtain qs q where qs: "ps = qs @ [q]" by (metis rev_exhaust)
  show ?thesis
  proof (rule clean_formI [OF _ es(2)])
    show "es = replicate n ''..'' @ qs" using es(1) qs by simp
    show "\<forall>p \<in> set qs. plain_elem p" using ps qs by simp
  qed
qed

lemma rooted_no_up: "clean_form True es \<Longrightarrow> ''..'' \<notin> set es"
proof (erule clean_formE)
  fix n ps
  assume es: "es = replicate n ''..'' @ ps" "True \<longrightarrow> n = 0" and ps: "\<forall>p \<in> set ps. plain_elem p"
  from ps have "''..'' \<notin> set ps" using not_plain_up by metis
  with es show ?thesis by simp
qed

lemma clean_stack_form:
  "clean_form r (rev st) \<Longrightarrow> (\<And>c. c \<in> set cs \<Longrightarrow> slash \<notin> set c) \<Longrightarrow> clean_form r (clean_stack r st cs)"
proof (induction r st cs rule: clean_stack.induct)
  case (1 rooted st)
  then show ?case by simp
next
  case (2 rooted st c cs)
  show ?case
  proof (cases "c = '''' \<or> c = ''.''")
    case True
    with 2 show ?thesis by auto
  next
    case F: False
    show ?thesis
    proof (cases "c = ''..''")
      case False
      with F "2.prems"(2) have "plain_elem c" by (simp add: plain_elem_def)
      with "2.prems"(1) have "clean_form rooted (rev (c # st))" by (simp add: clean_form_snoc_plain)
      with F False 2 show ?thesis by auto
    next
      case up: True
      show ?thesis
      proof (cases st)
        case Nil
        then show ?thesis
          using F up 2 clean_form_snoc_up [of "[]"] by (cases rooted) auto
      next
        case (Cons t ts)
        show ?thesis
        proof (cases "t = ''..''")
          case True
          with Cons "2.prems"(1) have "\<not> rooted"
            using rooted_no_up [of "rev st"] by (cases rooted) auto
          with True Cons "2.prems"(1) have "clean_form rooted (rev (''..'' # st))"
            using clean_form_snoc_up [of "rev st"] by simp
          with F up Cons True 2 show ?thesis by auto
        next
          case False
          with Cons "2.prems"(1) have "clean_form rooted (rev ts)"
            using clean_form_butlast [of rooted "rev ts" t] by simp
          with F up Cons False 2 show ?thesis by auto
        qed
      qed
    qed
  qed
qed

lemma clean_elems_form: "clean_form (IsAbs s) (clean_elems s)"
  unfolding clean_elems_def by (rule clean_stack_form) (auto dest: split_on_elem)

text \<open>Elements already in clean form pass through the stack unchanged.\<close>

lemma clean_stack_plain:
  "(\<forall>p \<in> set ps. plain_elem p) \<Longrightarrow> clean_stack r st ps = rev st @ ps"
  by (induction ps arbitrary: st) (auto simp: plain_elem_def)

lemma clean_stack_ups: "clean_stack False (replicate m ''..'') (replicate n ''..'' @ ps)
    = clean_stack False (replicate (m + n) ''..'') ps"
proof (induction n arbitrary: m)
  case 0
  then show ?case by simp
next
  case (Suc n)
  have "clean_stack False (replicate m ''..'') (''..'' # replicate n ''..'' @ ps)
      = clean_stack False (replicate (Suc m) ''..'') (replicate n ''..'' @ ps)"
    by (cases m) simp_all
  with Suc [of "Suc m"] show ?case by simp
qed

lemma clean_stack_id: "clean_form r es \<Longrightarrow> clean_stack r [] es = es"
proof -
  assume "clean_form r es"
  then obtain n ps where ps: "es = replicate n ''..'' @ ps" "r \<longrightarrow> n = 0" "\<forall>p \<in> set ps. plain_elem p"
    by (auto simp: clean_form_def)
  show ?thesis
  proof (cases r)
    case True
    with ps show ?thesis by (simp add: clean_stack_plain)
  next
    case False
    with ps clean_stack_ups [of 0 n ps] show ?thesis by (simp add: clean_stack_plain)
  qed
qed

lemma clean_elems_slash: "c \<in> set (clean_elems s) \<Longrightarrow> c \<noteq> '''' \<and> slash \<notin> set c"
proof -
  assume c: "c \<in> set (clean_elems s)"
  obtain n ps where es: "clean_elems s = replicate n ''..'' @ ps" and ps: "\<forall>p \<in> set ps. plain_elem p"
    using clean_elems_form [of s] by (rule clean_formE)
  from c es have "c \<in> set (replicate n ''..'') \<or> c \<in> set ps" by simp
  then show ?thesis
  proof
    assume "c \<in> set (replicate n ''..'')"
    then have "c = ''..''" by (simp split: if_splits)
    then show ?thesis by simp
  next
    assume "c \<in> set ps"
    with ps have "plain_elem c" by metis
    then show ?thesis by (simp add: plain_elem_def)
  qed
qed

lemma clean_elems_dot: "''.'' \<notin> set (clean_elems s)"
proof
  assume c: "''.'' \<in> set (clean_elems s)"
  obtain n ps where es: "clean_elems s = replicate n ''..'' @ ps" and ps: "\<forall>p \<in> set ps. plain_elem p"
    using clean_elems_form [of s] by (rule clean_formE)
  from c es have "''.'' \<in> set ps" by (simp split: if_splits)
  with ps have "plain_elem ''.''" by metis
  then show False by (simp add: plain_elem_def)
qed

lemma split_clean_rel: "clean_elems s \<noteq> [] \<Longrightarrow> Split (join_with slash (clean_elems s)) slash = clean_elems s"
  by (rule split_join) (auto dest: clean_elems_slash)

lemma IsAbs_join: "clean_elems s \<noteq> [] \<Longrightarrow> \<not> IsAbs (join_with slash (clean_elems s))"
proof -
  assume ne: "clean_elems s \<noteq> []"
  then obtain c cs where c: "clean_elems s = c # cs" by (cases "clean_elems s") auto
  with clean_elems_slash [of c s] have "c \<noteq> ''''" "slash \<notin> set c" by auto
  then show ?thesis unfolding c IsAbs_def by (cases c) (auto simp: join_with_head)
qed

lemma IsAbs_Clean [simp]: "IsAbs (Clean s) = IsAbs s"
  using IsAbs_join [of s] by (auto simp: Clean_def IsAbs_def)

lemma clean_elems_Clean: "clean_elems (Clean s) = clean_elems s"
proof (cases "IsAbs s")
  case True
  have "clean_stack True [] (Split (slash # join_with slash (clean_elems s)) slash) = clean_elems s"
  proof (cases "clean_elems s = []")
    case True
    then show ?thesis by simp
  next
    case False
    with \<open>IsAbs s\<close> show ?thesis
      using clean_elems_form [of s] by (simp add: split_clean_rel clean_stack_id)
  qed
  moreover have "IsAbs (Clean s)" using True by simp
  ultimately show ?thesis using True by (simp add: clean_elems_def [of "Clean s"]) (simp add: Clean_def)
next
  case F: False
  show ?thesis
  proof (cases "clean_elems s = []")
    case True
    with F show ?thesis by (simp add: Clean_def) (simp add: clean_elems_def)
  next
    case False
    have "\<not> IsAbs (Clean s)" using F by simp
    then have "clean_elems (Clean s) = clean_stack False [] (Split (Clean s) slash)"
      by (simp add: clean_elems_def)
    also have "\<dots> = clean_elems s"
      using F False clean_elems_form [of s] by (simp add: Clean_def split_clean_rel clean_stack_id)
    finally show ?thesis .
  qed
qed

lemma Clean_idem [simp]: "Clean (Clean s) = Clean s"
  unfolding Clean_def [of "Clean s"] IsAbs_Clean clean_elems_Clean by (simp add: Clean_def)

lemma Clean_abs: "IsAbs s \<Longrightarrow> Clean s = slash # join_with slash (clean_elems s)"
  by (simp add: Clean_def)

lemma Clean_eq_iff_abs:
  "IsAbs s \<Longrightarrow> IsAbs t \<Longrightarrow> Clean s = Clean t \<longleftrightarrow> clean_elems s = clean_elems t"
  by (metis Clean_abs clean_elems_Clean)

lemma clean_elems_abs_plain: "IsAbs s \<Longrightarrow> c \<in> set (clean_elems s) \<Longrightarrow> plain_elem c"
  using clean_elems_form [of s] by (auto elim: clean_formE)

text \<open>Cleaning in two stages, and cleaning below a directory.\<close>

lemma clean_stack_append:
  "clean_stack r st (as @ bs) = clean_stack r (rev (clean_stack r st as)) bs"
  by (induction r st as rule: clean_stack.induct) (auto split: list.splits)

lemma clean_stack_keeps_up: "''..'' \<in> set st \<Longrightarrow> ''..'' \<in> set (clean_stack False st cs)"
proof (induction False st cs rule: clean_stack.induct)
  case (2 st c cs)
  then show ?case by (cases st) auto
qed simp

lemma clean_stack_base:
  "''..'' \<notin> set (clean_stack False st cs) \<Longrightarrow>
     clean_stack r (st @ base) cs = rev base @ clean_stack False st cs"
proof (induction cs arbitrary: st)
  case Nil
  then show ?case by simp
next
  case (Cons c cs)
  show ?case
  proof (cases "c = ''..''")
    case True
    show ?thesis
    proof (cases st)
      case Nil
      then show ?thesis
        using Cons.prems True clean_stack_keeps_up [of "[''..'']" cs] by simp
    next
      case (Cons t ts)
      then show ?thesis
        using Cons.prems Cons.IH [of ts] True clean_stack_keeps_up [of "''..'' # st" cs]
        by (cases "t = ''..''") simp_all
    qed
  next
    case False
    then show ?thesis
      using Cons.prems Cons.IH [of st] Cons.IH [of "c # st"] by (cases "c = '''' \<or> c = ''.''") simp_all
  qed
qed

lemma clean_elems_under:
  assumes "IsAbs d" "\<not> IsAbs s" "''..'' \<notin> set (clean_elems s)"
  shows "clean_elems (d @ slash # s) = clean_elems d @ clean_elems s"
proof -
  have "IsAbs (d @ slash # s)" using assms(1) by (auto simp: IsAbs_def prefix_def)
  moreover have "''..'' \<notin> set (clean_stack False [] (Split s slash))"
    using assms by (simp add: clean_elems_def)
  ultimately show ?thesis
    using assms clean_stack_base [of "[]" "Split s slash" True "rev (clean_elems d)"]
    by (simp add: clean_elems_def split_on_append clean_stack_append)
qed

section \<open>Paths below a directory\<close>

lemma strip_common_append: "strip_common bs (bs @ ts) = ([], ts)"
  by (induction bs) auto

lemma strip_common_split:
  "strip_common bs ts = (bs', ts') \<Longrightarrow> \<exists>cs. bs = cs @ bs' \<and> ts = cs @ ts' \<and>
     (bs' = [] \<or> ts' = [] \<or> hd bs' \<noteq> hd ts')"
proof (induction bs ts rule: strip_common.induct)
  case (1 b bs t ts)
  show ?case
  proof (cases "b = t")
    case True
    with 1 obtain cs where "bs = cs @ bs' \<and> ts = cs @ ts' \<and> (bs' = [] \<or> ts' = [] \<or> hd bs' \<noteq> hd ts')"
      by auto
    with True show ?thesis by (intro exI [of _ "b # cs"]) simp
  next
    case False
    with 1 show ?thesis by (intro exI [of _ "[]"]) auto
  qed
qed auto

text \<open>\<open>below d t\<close>: the clean elements of \<open>t\<close> extend those of \<open>d\<close>.\<close>

definition below :: "string \<Rightarrow> string \<Rightarrow> bool" where
  "below d t \<longleftrightarrow> prefix (clean_elems d) (clean_elems t)"

lemma Rel_below:
  assumes "IsAbs d" "IsAbs t" "clean_elems t = clean_elems d @ ts"
  shows "Rel d t = Some (if ts = [] then ''.'' else join_with slash ts)"
  using assms by (auto simp: Rel_def Clean_eq_iff_abs rel_elems_def strip_common_append)

text \<open>On absolute paths \<open>Rel\<close> never fails.\<close>

lemma Rel_abs_total:
  assumes "IsAbs d" "IsAbs t" shows "Rel d t \<noteq> None"
proof -
  obtain bs ts where st: "strip_common (clean_elems d) (clean_elems t) = (bs, ts)" by fastforce
  then obtain cs where "clean_elems d = cs @ bs" using strip_common_split by blast
  then have "\<forall>b \<in> set bs. plain_elem b" using clean_elems_abs_plain [OF assms(1)] by simp
  then have "bs \<noteq> [] \<Longrightarrow> hd bs \<noteq> ''..''" by (cases bs) (auto simp: plain_elem_def)
  with assms st show ?thesis by (auto simp: Rel_def rel_elems_def)
qed

end
