(* ===== verification/Go_Float.thy ===== *)
theory Go_Float
  imports Prelude Complex_Main
begin

text \<open>
  Go's \<^verbatim>\<open>float64\<close>, as far as the program uses it: finite values are rationals (the sign of
  zero is not kept), with the two infinities and NaN. Comparison follows IEEE 754: a
  comparison with NaN is false, whichever way it is asked.
\<close>

datatype float64 = NaN | NegInf | Fin rat | PosInf

instantiation float64 :: ord
begin

fun less_eq_float64 :: "float64 \<Rightarrow> float64 \<Rightarrow> bool" where
  "less_eq_float64 NaN y = False"
| "less_eq_float64 x NaN = False"
| "less_eq_float64 NegInf y = True"
| "less_eq_float64 x PosInf = True"
| "less_eq_float64 (Fin a) (Fin b) = (a \<le> b)"
| "less_eq_float64 x y = False"

definition less_float64 :: "float64 \<Rightarrow> float64 \<Rightarrow> bool" where
  "less_float64 x y = (x \<le> y \<and> x \<noteq> y)"

instance ..

end

instantiation float64 :: zero
begin

definition zero_float64 :: float64 where
  "zero_float64 = Fin 0"

instance ..

end

lemma float_le_Fin [simp]: "Fin a \<le> Fin b \<longleftrightarrow> a \<le> b"
  by simp

lemma float_less_Fin [simp]: "Fin a < Fin b \<longleftrightarrow> a < b"
  by (auto simp: less_float64_def)

lemma float_NaN [simp]:
  "\<not> NaN \<le> x" "\<not> x \<le> NaN" "\<not> NaN < x" "\<not> x < NaN"
  by (cases x; simp add: less_float64_def)+

lemma float_le_cases:
  "x \<noteq> NaN \<Longrightarrow> y \<noteq> NaN \<Longrightarrow> (x :: float64) \<le> y \<or> y < x"
  by (cases x; cases y) (auto simp: less_float64_def)

lemma float_le_not_less: "(x :: float64) \<le> y \<Longrightarrow> \<not> y < x"
  by (cases x; cases y) (auto simp: less_float64_def)

definition IsNaN :: "float64 \<Rightarrow> bool" where "IsNaN x \<longleftrightarrow> x = NaN"
definition IsInf :: "float64 \<Rightarrow> bool" where "IsInf x \<longleftrightarrow> x = PosInf \<or> x = NegInf"

text \<open>\<^verbatim>\<open>math.Trunc\<close>: towards zero; the infinities and NaN are returned unchanged.\<close>

definition Trunc :: "float64 \<Rightarrow> float64" where
  "Trunc x = (case x of Fin q \<Rightarrow> Fin (of_int (if q < 0 then - \<lfloor>- q\<rfloor> else \<lfloor>q\<rfloor>)) | _ \<Rightarrow> x)"

lemma Trunc_Fin_iff: "Trunc (Fin q) = Fin q \<longleftrightarrow> q \<in> \<int>"
proof
  assume "Trunc (Fin q) = Fin q"
  then have "q = of_int (if q < 0 then - \<lfloor>- q\<rfloor> else \<lfloor>q\<rfloor>)" by (simp add: Trunc_def)
  then show "q \<in> \<int>" by (metis Ints_of_int)
next
  assume "q \<in> \<int>"
  then show "Trunc (Fin q) = Fin q" by (auto simp: Trunc_def elim!: Ints_cases)
qed

text \<open>
  The conversion of a 64-bit integer: to the nearest multiple of a power of two that leaves
  53 significant bits, ties to the even one.
\<close>

fun excess_bits :: "nat \<Rightarrow> nat" where
  "excess_bits n = (if n < 2 ^ 53 then 0 else Suc (excess_bits (n div 2)))"

declare excess_bits.simps [simp del]

definition round_nat :: "nat \<Rightarrow> nat" where
  "round_nat n = (let e = excess_bits n; q = n div 2 ^ e; r = n mod 2 ^ e; half = 2 ^ e div 2 in
     if e = 0 then n
     else (if half < r \<or> (r = half \<and> odd q) then q + 1 else q) * 2 ^ e)"

definition float_of_int :: "int \<Rightarrow> float64" where
  "float_of_int i = Fin (of_int (sgn i * int (round_nat (nat \<bar>i\<bar>))))"

lemma float_of_int_exact: "\<bar>i\<bar> < 2 ^ 53 \<Longrightarrow> float_of_int i = Fin (of_int i)"
proof -
  assume i: "\<bar>i\<bar> < 2 ^ 53"
  then have "nat \<bar>i\<bar> < 2 ^ 53" by (simp add: nat_less_iff)
  then have "excess_bits (nat \<bar>i\<bar>) = 0" by (subst excess_bits.simps) simp
  then have "round_nat (nat \<bar>i\<bar>) = nat \<bar>i\<bar>" by (simp add: round_nat_def)
  moreover have "sgn i * int (nat \<bar>i\<bar>) = i" by (simp add: sgn_mult_abs)
  ultimately show ?thesis unfolding float_of_int_def by (simp only:)
qed

end
