(* ===== verification/Policy.thy ===== *)
theory Policy
  imports Glob Go_Filepath Go_Float
begin

text \<open>
  \<^verbatim>\<open>cmd/paldron/policy.go\<close>: the policy record and its loading, and \<open>EvalPath\<close>, the decision
  on one path. The TOML library and the file system are arguments of \<open>LoadPolicy\<close>.
  The lemmas reduce \<open>EvalPath\<close> to the clean elements of a path relative to the workspace.
\<close>

section \<open>The policy\<close>

record Policy =
  AllowPaths :: "string list"
  DenyGlobs :: "string list"
  AllowNetwork :: bool
  AllowBinaries :: "string list"
  RequireOSIsolation :: bool
  TimeoutSec :: i64
  MaxProcesses :: i64
  MaxMemoryMB :: i64
  MaxOpenFiles :: i64
  CPUTimeSec :: i64
  MaxFileSizeMB :: i64
  JevVerdict :: bool
  JevThreshold :: float64
  JevOnError :: string

definition defaultMaxProcesses :: i64 where "defaultMaxProcesses = 4096"
definition defaultMaxMemoryMB :: i64 where "defaultMaxMemoryMB = 8192"
definition defaultMaxOpenFiles :: i64 where "defaultMaxOpenFiles = 1024"
definition defaultCPUTimeSec :: i64 where "defaultCPUTimeSec = 60"
definition defaultMaxFileSizeMB :: i64 where "defaultMaxFileSizeMB = 1024"

definition DefaultSecretGlobs :: "string list" where
  "DefaultSecretGlobs = [''.env'', ''.env.*'', ''*.pem'', ''**/secrets/**'']"

definition DefaultPolicy :: Policy where
  "DefaultPolicy = \<lparr>AllowPaths = [], DenyGlobs = [], AllowNetwork = False, AllowBinaries = [],
     RequireOSIsolation = True, TimeoutSec = 30, MaxProcesses = 0, MaxMemoryMB = 0,
     MaxOpenFiles = 0, CPUTimeSec = 0, MaxFileSizeMB = 0, JevVerdict = False,
     JevThreshold = 0, JevOnError = ''''\<rparr>"

definition knownPolicyKeys :: "string list" where
  "knownPolicyKeys = [''allow_paths'', ''deny_globs'', ''allow_network'', ''allow_binaries'',
     ''require_os_isolation'', ''timeout_sec'', ''max_processes'', ''max_memory_mb'',
     ''max_open_files'', ''cpu_time_sec'', ''max_file_size_mb'', ''jev_verdict'',
     ''jev_threshold'', ''jev_on_error'']"

section \<open>Loading\<close>

datatype policy_error =
    PolicyNotFound string
  | PolicyMalformed
  | PolicyUnknownKey string
  | PolicyJevOnError
  | PolicyJevThreshold

text \<open>
  \<^verbatim>\<open>toml.Unmarshal\<close> at its two target types: into a map, of which only the keys are used (in
  some iteration order), and into a policy that already holds the defaults.
\<close>

record toml =
  toml_keys :: "string \<Rightarrow> string list option"
  toml_into :: "string \<Rightarrow> Policy \<Rightarrow> Policy option"

definition LoadPolicy :: "(string \<Rightarrow> string option) \<Rightarrow> toml \<Rightarrow> string \<Rightarrow> (policy_error, Policy) result"
where
  "LoadPolicy ReadFile T path =
     (case ReadFile path of
        None \<Rightarrow> Inl (PolicyNotFound path)
      | Some data \<Rightarrow>
          (case toml_keys T data of
             None \<Rightarrow> Inl PolicyMalformed
           | Some raw \<Rightarrow>
               (case find (\<lambda>k. k \<notin> set knownPolicyKeys) raw of
                  Some k \<Rightarrow> Inl (PolicyUnknownKey k)
                | None \<Rightarrow>
                    (case toml_into T data DefaultPolicy of
                       None \<Rightarrow> Inl PolicyMalformed
                     | Some p \<Rightarrow>
                         if JevOnError p \<notin> {'''', ''deny'', ''allow''} then Inl PolicyJevOnError
                         else if JevThreshold p < 0 \<or> Fin 1 < JevThreshold p
                         then Inl PolicyJevThreshold
                         else Inr p))))"

section \<open>One path\<close>

definition underDir :: "string \<Rightarrow> string \<Rightarrow> bool" where
  "underDir path dir =
     (let clean = TrimRight dir slash in
      if clean = '''' \<or> clean = ''.'' then True
      else if path = clean then True
      else HasPrefix path (clean @ ''/''))"

definition EvalPath :: "Policy \<Rightarrow> string \<Rightarrow> string \<Rightarrow> string" where
  "EvalPath p cwd s =
     (if IsAbs s \<and> Clean s \<noteq> cwd \<and> \<not> HasPrefix (Clean s) (cwd @ ''/'') then ''outside workspace''
      else
        let rel = ToSlash (if IsAbs s then (case Rel cwd (Clean s) of Some r \<Rightarrow> r | None \<Rightarrow> '''')
                           else Clean s) in
        if list_ex (\<lambda>g. globMatch g rel) (DenyGlobs p) then ''policy deny_glob''
        else if list_ex (\<lambda>g. globMatch g rel) DefaultSecretGlobs then ''secret''
        else if AllowPaths p \<noteq> [] then
          (if list_ex (\<lambda>d. underDir rel (ToSlash (Clean d))) (AllowPaths p) then ''''
           else ''outside allow_paths'')
        else '''')"

section \<open>The workspace-relative form\<close>

text \<open>A workspace: an absolute path in clean form other than the root.\<close>

definition workspace :: "string \<Rightarrow> bool" where
  "workspace cwd \<longleftrightarrow> IsAbs cwd \<and> Clean cwd = cwd \<and> cwd \<noteq> ''/''"

definition ws_elems :: "string \<Rightarrow> string \<Rightarrow> string list" where
  "ws_elems cwd s =
     (if IsAbs s then drop (length (clean_elems cwd)) (clean_elems s) else clean_elems s)"

definition path_of :: "string list \<Rightarrow> string" where
  "path_of es = (if es = [] then ''.'' else join_with slash es)"

lemma workspace_elems: "workspace cwd \<Longrightarrow> clean_elems cwd \<noteq> []"
  by (auto simp: workspace_def Clean_def)

lemma workspace_split: "workspace cwd \<Longrightarrow> Split cwd slash = '''' # clean_elems cwd"
proof -
  assume w: "workspace cwd"
  then have "cwd = '''' @ slash # join_with slash (clean_elems cwd)"
    using Clean_abs [of cwd] by (simp add: workspace_def)
  then show ?thesis
    using split_on_sep [of slash "''''"] split_clean_rel [OF workspace_elems [OF w]] by (metis empty_iff list.set(1))
qed

lemma split_Clean_abs:
  "IsAbs s \<Longrightarrow> Split (Clean s) slash = '''' # (if clean_elems s = [] then [''''] else clean_elems s)"
  using split_clean_rel [of s] by (simp add: Clean_abs)

lemma inside_iff_below:
  assumes "workspace cwd" "IsAbs s"
  shows "Clean s = cwd \<or> HasPrefix (Clean s) (cwd @ ''/'') \<longleftrightarrow> below cwd s"
proof -
  have "Clean s = cwd \<or> HasPrefix (Clean s) (cwd @ [slash])
      \<longleftrightarrow> prefix (Split cwd slash) (Split (Clean s) slash)"
    by (simp add: prefix_split_on)
  also have "\<dots> \<longleftrightarrow> below cwd s"
    using workspace_elems [OF assms(1)] clean_elems_slash [of "''''" cwd]
    by (auto simp: workspace_split [OF assms(1)] split_Clean_abs [OF assms(2)] below_def prefix_Cons)
  finally show ?thesis .
qed

lemma below_ws_elems:
  "IsAbs s \<Longrightarrow> below cwd s \<Longrightarrow> clean_elems s = clean_elems cwd @ ws_elems cwd s"
  by (auto simp: below_def prefix_def ws_elems_def)

lemma Clean_path_of: "\<not> IsAbs s \<Longrightarrow> Clean s = path_of (ws_elems cwd s)"
  by (simp add: Clean_def path_of_def ws_elems_def)

lemma Rel_path_of:
  assumes "workspace cwd" "IsAbs s" "below cwd s"
  shows "Rel cwd (Clean s) = Some (path_of (ws_elems cwd s))"
  using assms by (subst Rel_below [of cwd "Clean s" "ws_elems cwd s"])
    (auto simp: workspace_def clean_elems_Clean below_ws_elems path_of_def)

text \<open>The decision on a workspace-relative path.\<close>

definition rel_verdict :: "Policy \<Rightarrow> string \<Rightarrow> string" where
  "rel_verdict p rel =
     (if list_ex (\<lambda>g. globMatch g rel) (DenyGlobs p) then ''policy deny_glob''
      else if list_ex (\<lambda>g. globMatch g rel) DefaultSecretGlobs then ''secret''
      else if AllowPaths p \<noteq> [] \<and> \<not> list_ex (\<lambda>d. underDir rel (Clean d)) (AllowPaths p)
      then ''outside allow_paths'' else '''')"

lemma EvalPath_rel:
  assumes "workspace cwd"
  shows "EvalPath p cwd s =
     (if IsAbs s \<and> \<not> below cwd s then ''outside workspace''
      else rel_verdict p (path_of (ws_elems cwd s)))"
proof -
  have out: "(IsAbs s \<and> Clean s \<noteq> cwd \<and> \<not> HasPrefix (Clean s) (cwd @ ''/''))
      \<longleftrightarrow> IsAbs s \<and> \<not> below cwd s"
    using inside_iff_below [OF assms, of s] by blast
  have rel: "(if IsAbs s then (case Rel cwd (Clean s) of Some r \<Rightarrow> r | None \<Rightarrow> '''') else Clean s)
      = path_of (ws_elems cwd s)" if "\<not> (IsAbs s \<and> \<not> below cwd s)"
    using that Rel_path_of [OF assms] Clean_path_of by (cases "IsAbs s") auto
  show ?thesis
  proof (cases "IsAbs s \<and> \<not> below cwd s")
    case True
    with out show ?thesis by (simp add: EvalPath_def)
  next
    case False
    then show ?thesis
      unfolding EvalPath_def ToSlash_id out rel [OF False] Let_def rel_verdict_def by auto
  qed
qed

lemma rel_verdict_Nil:
  "rel_verdict p rel = '''' \<longleftrightarrow>
     (\<forall>g \<in> set (DenyGlobs p @ DefaultSecretGlobs). \<not> globMatch g rel) \<and>
     (AllowPaths p = [] \<or> (\<exists>d \<in> set (AllowPaths p). underDir rel (Clean d)))"
  by (auto simp: rel_verdict_def list_ex_iff)

lemma below_Clean: "below cwd (Clean s) = below cwd s"
  by (simp add: below_def clean_elems_Clean)

lemma ws_elems_Clean: "ws_elems cwd (Clean s) = ws_elems cwd s"
  by (simp add: ws_elems_def clean_elems_Clean)

text \<open>The elements of the relative form; only the workspace itself has none.\<close>

lemma ws_elems_slash: "c \<in> set (ws_elems cwd s) \<Longrightarrow> c \<noteq> '''' \<and> slash \<notin> set c"
  using clean_elems_slash [of c s] by (auto simp: ws_elems_def dest: in_set_dropD split: if_splits)

lemma split_path_of:
  "(\<And>c. c \<in> set es \<Longrightarrow> slash \<notin> set c) \<Longrightarrow>
     Split (path_of es) slash = (if es = [] then [''.''] else es)"
  by (simp add: path_of_def split_join)

lemma split_rel: "Split (path_of (ws_elems cwd s)) slash
    = (if ws_elems cwd s = [] then [''.''] else ws_elems cwd s)"
  by (rule split_path_of) (auto dest: ws_elems_slash)

text \<open>
  \<open>underDir\<close> on a cleaned directory of the policy: the directory covers everything when it is
  the current one or the root, else what its elements are a prefix of.
\<close>

definition dir_covers :: "string \<Rightarrow> string list \<Rightarrow> bool" where
  "dir_covers d es \<longleftrightarrow> clean_elems d = [] \<or> (\<not> IsAbs d \<and> prefix (clean_elems d) es)"

lemma TrimRight_none: "s \<noteq> '''' \<Longrightarrow> last s \<noteq> c \<Longrightarrow> TrimRight s c = s"
  by (cases s rule: rev_cases) (simp_all add: TrimRight_def)

lemma last_join:
  "ws \<noteq> [] \<Longrightarrow> last ws \<noteq> [] \<Longrightarrow> join_with c ws \<noteq> [] \<and> last (join_with c ws) = last (last ws)"
proof (induction ws)
  case Nil
  then show ?case by simp
next
  case (Cons w ws)
  then show ?case by (cases "ws = []") (auto simp: join_with_Cons)
qed

lemma join_elems_last:
  assumes "clean_elems d \<noteq> []"
  shows "join_with slash (clean_elems d) \<noteq> '''' \<and> last (join_with slash (clean_elems d)) \<noteq> slash"
proof -
  have "last (clean_elems d) \<in> set (clean_elems d)" using assms by (rule last_in_set)
  then have l: "last (clean_elems d) \<noteq> ''''" "slash \<notin> set (last (clean_elems d))"
    using clean_elems_slash by blast+
  then have "last (last (clean_elems d)) \<noteq> slash" by (metis last_in_set)
  with last_join [OF assms l(1), of slash] show ?thesis by simp
qed

lemma underDir_elems:
  assumes "\<And>c. c \<in> set es \<Longrightarrow> c \<noteq> '''' \<and> slash \<notin> set c"
  shows "underDir (path_of es) (Clean d) \<longleftrightarrow> dir_covers d es"
proof (cases "clean_elems d = []")
  case True
  then show ?thesis by (simp add: Clean_def underDir_def dir_covers_def TrimRight_def Let_def)
next
  case ne: False
  have first: "path_of es \<noteq> slash # t" for t
  proof
    assume eq: "path_of es = slash # t"
    then have "es \<noteq> []" by (auto simp: path_of_def)
    then obtain c cs where "es = c # cs" by (cases es) auto
    with eq assms [of c] show False by (cases c) (auto simp: path_of_def join_with_head)
  qed
  show ?thesis
  proof (cases "IsAbs d")
    case True
    then have cl: "Clean d = slash # join_with slash (clean_elems d)" by (simp add: Clean_abs)
    with join_elems_last [OF ne] have "TrimRight (Clean d) slash = Clean d"
      by (intro TrimRight_none) auto
    with cl first True ne show ?thesis
      by (auto simp: underDir_def dir_covers_def Let_def prefix_def)
  next
    case False
    then have cl: "Clean d = join_with slash (clean_elems d)" using ne by (simp add: Clean_def)
    with join_elems_last [OF ne] have tr: "TrimRight (Clean d) slash = Clean d"
      by (intro TrimRight_none) auto
    have "Split (Clean d) slash = clean_elems d" using cl split_clean_rel [OF ne] by simp
    then have nd: "Clean d \<noteq> ''.''"
    proof -
      have "[''.''] \<noteq> clean_elems d" using clean_elems_dot [of d] by (metis list.set_intros(1))
      then show ?thesis using \<open>Split (Clean d) slash = clean_elems d\<close> by (auto simp: split_on_single)
    qed
    have "underDir (path_of es) (Clean d) \<longleftrightarrow> prefix (Split (Clean d) slash) (Split (path_of es) slash)"
      using tr nd cl join_elems_last [OF ne] by (simp add: underDir_def Let_def prefix_split_on)
    also have "\<dots> \<longleftrightarrow> prefix (clean_elems d) es"
      using clean_elems_dot [of d] ne assms
      by (simp add: \<open>Split (Clean d) slash = clean_elems d\<close> split_path_of) (auto simp: prefix_Cons)
    finally show ?thesis using ne False by (simp add: dir_covers_def)
  qed
qed

section \<open>What the built-in globs protect\<close>

text \<open>The files the built-in list means, by the elements of their path.\<close>

definition secret_elems :: "string list \<Rightarrow> bool" where
  "secret_elems es \<longleftrightarrow> es \<noteq> [] \<and>
     (''secrets'' \<in> set es \<or> last es = ''.env'' \<or> prefix ''.env.'' (last es) \<or> suffix ''.pem'' (last es))"

lemma secret_globs:
  assumes "\<And>c. c \<in> set es \<Longrightarrow> c \<noteq> '''' \<and> slash \<notin> set c" and "es \<noteq> []" "CHR ''*'' \<notin> set (last es)"
  shows "list_ex (\<lambda>g. globMatch g (path_of es)) DefaultSecretGlobs \<longleftrightarrow> secret_elems es"
proof -
  have sp: "Split (path_of es) slash = es" using assms split_path_of [of es] by auto
  have "globMatch ''.env'' (path_of es) \<longleftrightarrow> last es = ''.env''"
    using glob.literal_name [of "''.env''" "path_of es"] unfolding sp by (simp add: wildcard_free_def)
  moreover have "globMatch ''.env.*'' (path_of es) \<longleftrightarrow> prefix ''.env.'' (last es)"
    using glob.beginning [of "''.env.''" "path_of es"] assms(3) unfolding sp by (simp add: wildcard_free_def)
  moreover have "globMatch ''*.pem'' (path_of es) \<longleftrightarrow> suffix ''.pem'' (last es)"
    using glob.ending [of "''.pem''" "path_of es"] assms(3) unfolding sp by (simp add: wildcard_free_def)
  moreover have "globMatch ''**/secrets/**'' (path_of es) \<longleftrightarrow> ''secrets'' \<in> set es"
    using glob.directory [of "''secrets''" "path_of es"] unfolding sp by simp
  ultimately show ?thesis using assms(2)
    unfolding DefaultSecretGlobs_def secret_elems_def by (simp add: disj_ac del: last.simps)
qed

lemma rel_verdict_not_outside: "rel_verdict p rel \<noteq> ''outside workspace''"
  by (simp add: rel_verdict_def)

lemma rel_verdict_secret:
  "rel_verdict p rel = ''secret'' \<longleftrightarrow>
     \<not> list_ex (\<lambda>g. globMatch g rel) (DenyGlobs p) \<and> list_ex (\<lambda>g. globMatch g rel) DefaultSecretGlobs"
  by (simp add: rel_verdict_def)


lemma EvalPath_Nil:
  assumes "workspace cwd"
  shows "EvalPath p cwd s = '''' \<longleftrightarrow>
     (IsAbs s \<longrightarrow> below cwd s) \<and>
     (\<forall>g \<in> set (DenyGlobs p @ DefaultSecretGlobs). \<not> globMatch g (path_of (ws_elems cwd s))) \<and>
     (AllowPaths p = [] \<or> (\<exists>d \<in> set (AllowPaths p). dir_covers d (ws_elems cwd s)))"
proof -
  have "underDir (path_of (ws_elems cwd s)) (Clean d) = dir_covers d (ws_elems cwd s)" for d
    by (rule underDir_elems) (rule ws_elems_slash)
  then show ?thesis
    unfolding EvalPath_rel [OF assms] by (cases "IsAbs s \<and> \<not> below cwd s") (auto simp: rel_verdict_Nil)
qed

section \<open>Properties\<close>

text \<open>
  Property C35: a policy file loads exactly when it can be read, parses as TOML and into a
  policy, names no unknown key, and holds an accepted error mode and a threshold that is not
  outside 0 to 1; the result is what the file says over the defaults.
\<close>
theorem LoadPolicy_accepts_iff:
  "LoadPolicy ReadFile T path = Inr p \<longleftrightarrow>
     (\<exists>data ks. ReadFile path = Some data \<and> toml_keys T data = Some ks \<and>
        set ks \<subseteq> set knownPolicyKeys \<and> toml_into T data DefaultPolicy = Some p \<and>
        JevOnError p \<in> {'''', ''deny'', ''allow''} \<and> \<not> JevThreshold p < 0 \<and> \<not> Fin 1 < JevThreshold p)"
proof (cases "ReadFile path")
  case None
  then show ?thesis by (simp add: LoadPolicy_def)
next
  case (Some data)
  have unknown: "find (\<lambda>k. k \<notin> set knownPolicyKeys) ks = None \<longleftrightarrow> set ks \<subseteq> set knownPolicyKeys" for ks
    by (auto simp: find_None_iff simp del: not_None_eq)
  show ?thesis
  proof (cases "toml_keys T data")
    case None
    with Some show ?thesis by (simp add: LoadPolicy_def)
  next
    case ks: (Some ks)
    with Some unknown [of ks] show ?thesis
      by (cases "find (\<lambda>k. k \<notin> set knownPolicyKeys) ks"; cases "toml_into T data DefaultPolicy")
        (auto simp: LoadPolicy_def)
  qed
qed

text \<open>
  Property C4: a path is allowed exactly when three conditions hold: if it is absolute, it lies in
  the workspace (a relative path is not asked for that); no deny glob and no secret glob matches its
  workspace-relative form; and the list of allowed directories is empty or one of them covers it.
\<close>
theorem EvalPath_allows_iff:
  assumes "workspace cwd"
  shows "EvalPath p cwd s = '''' \<longleftrightarrow>
     (IsAbs s \<longrightarrow> below cwd s) \<and>
     (\<forall>g \<in> set (DenyGlobs p @ DefaultSecretGlobs). \<not> globMatch g (path_of (ws_elems cwd s))) \<and>
     (AllowPaths p = [] \<or> (\<exists>d \<in> set (AllowPaths p). dir_covers d (ws_elems cwd s)))"
  using assms by (rule EvalPath_Nil)

theorem EvalPath_allows_iff_witness:
  "EvalPath (DefaultPolicy\<lparr>AllowPaths := [''src/'']\<rparr>) ''/w'' ''/w/./src/main.go'' = ''''"
proof -
  have ws: "workspace ''/w''" by (simp add: workspace_def IsAbs_def Clean_def clean_elems_def)
  have el: "clean_elems ''/w'' = [''w'']" "clean_elems ''src/'' = [''src'']"
    "clean_elems ''/w/./src/main.go'' = [''w'', ''src'', ''main.go'']"
    by (simp_all add: clean_elems_def)
  have rel: "ws_elems ''/w'' ''/w/./src/main.go'' = [''src'', ''main.go'']"
    by (simp add: ws_elems_def IsAbs_def el)
  have "list_ex (\<lambda>g. globMatch g (path_of [''src'', ''main.go''])) DefaultSecretGlobs
      = secret_elems [''src'', ''main.go'']"
    by (rule secret_globs) auto
  then have "\<not> list_ex (\<lambda>g. globMatch g (path_of [''src'', ''main.go''])) DefaultSecretGlobs"
    by (simp add: secret_elems_def suffix_def)
  then show ?thesis
    unfolding EvalPath_allows_iff [OF ws] rel
    by (simp add: list_ex_iff DefaultPolicy_def dir_covers_def IsAbs_def el below_def)
qed

text \<open>
  Property C10: on a path whose last element holds no star byte, the verdict is \<^verbatim>\<open>secret\<close> exactly
  when the path is in reach, no deny glob of the policy already caught it, and one of its
  elements is \<^verbatim>\<open>secrets\<close> or its last element is \<^verbatim>\<open>.env\<close>, begins with \<^verbatim>\<open>.env.\<close> or ends in \<^verbatim>\<open>.pem\<close>;
  nothing else the policy holds changes that.
\<close>
theorem EvalPath_secret_iff:
  assumes "workspace cwd" "ws_elems cwd s \<noteq> []" "CHR ''*'' \<notin> set (last (ws_elems cwd s))"
  shows "EvalPath p cwd s = ''secret'' \<longleftrightarrow>
     (IsAbs s \<longrightarrow> below cwd s) \<and>
     (\<forall>g \<in> set (DenyGlobs p). \<not> globMatch g (path_of (ws_elems cwd s))) \<and>
     secret_elems (ws_elems cwd s)"
proof -
  have "list_ex (\<lambda>g. globMatch g (path_of (ws_elems cwd s))) DefaultSecretGlobs
      = secret_elems (ws_elems cwd s)"
    by (rule secret_globs [OF ws_elems_slash assms(2,3)])
  then show ?thesis
    unfolding EvalPath_rel [OF assms(1)]
    by (cases "IsAbs s \<and> \<not> below cwd s") (auto simp: rel_verdict_secret list_ex_iff)
qed

theorem EvalPath_secret_iff_witness:
  "EvalPath DefaultPolicy ''/w'' ''conf/secrets/db.sql'' = ''secret''"
proof -
  have "clean_elems ''/w'' = [''w'']" "clean_elems ''conf/secrets/db.sql'' = [''conf'', ''secrets'', ''db.sql'']"
    by (simp_all add: clean_elems_def)
  moreover have "workspace ''/w''" by (simp add: workspace_def IsAbs_def Clean_def clean_elems_def)
  ultimately show ?thesis
    using EvalPath_secret_iff [of "''/w''" "''conf/secrets/db.sql''" DefaultPolicy]
    by (simp add: ws_elems_def IsAbs_def secret_elems_def DefaultPolicy_def)
qed

text \<open>
  The verdict \<^verbatim>\<open>outside workspace\<close> is given exactly to the absolute paths whose
  clean elements do not begin with those of the workspace.
\<close>
theorem EvalPath_outside_iff:
  assumes "workspace cwd"
  shows "EvalPath p cwd s = ''outside workspace'' \<longleftrightarrow>
     IsAbs s \<and> \<not> prefix (clean_elems cwd) (clean_elems s)"
  using rel_verdict_not_outside by (simp add: EvalPath_rel [OF assms] below_def)

theorem EvalPath_outside_iff_witness:
  "EvalPath DefaultPolicy ''/w'' ''/w/../etc/passwd'' = ''outside workspace''"
proof -
  have "clean_elems ''/w'' = [''w'']" "clean_elems ''/w/../etc/passwd'' = [''etc'', ''passwd'']"
    by (simp_all add: clean_elems_def IsAbs_def)
  moreover have "workspace ''/w''" by (simp add: workspace_def IsAbs_def Clean_def clean_elems_def)
  ultimately show ?thesis
    using EvalPath_outside_iff [of "''/w''" DefaultPolicy "''/w/../etc/passwd''"] by (simp add: IsAbs_def)
qed

text \<open>
  Property C21: two spellings of one path that are judged alike. Cleaning a path first changes
  nothing; and a relative path whose clean form holds no \<^verbatim>\<open>..\<close> is judged like the absolute path it
  stands for (one that climbs need not be).
\<close>
theorem EvalPath_respelled:
  assumes "workspace cwd"
  shows "EvalPath p cwd (Clean s) = EvalPath p cwd s \<and>
     (\<not> IsAbs s \<longrightarrow> ''..'' \<notin> set (clean_elems s) \<longrightarrow>
        EvalPath p cwd (cwd @ ''/'' @ s) = EvalPath p cwd s)"
proof (intro conjI impI)
  show "EvalPath p cwd (Clean s) = EvalPath p cwd s"
    by (simp add: EvalPath_rel [OF assms] below_Clean ws_elems_Clean)
next
  assume s: "\<not> IsAbs s" "''..'' \<notin> set (clean_elems s)"
  have abs: "IsAbs cwd" "IsAbs (cwd @ slash # s)"
    using assms by (auto simp: workspace_def IsAbs_def prefix_def)
  have "clean_elems (cwd @ slash # s) = clean_elems cwd @ clean_elems s"
    using abs(1) s by (rule clean_elems_under)
  with abs s show "EvalPath p cwd (cwd @ ''/'' @ s) = EvalPath p cwd s"
    by (simp add: EvalPath_rel [OF assms] below_def ws_elems_def)
qed

theorem EvalPath_respelled_witness:
  "EvalPath DefaultPolicy ''/w'' (''/w'' @ ''/'' @ ''./src//.env'') = EvalPath DefaultPolicy ''/w'' ''./src//.env''"
proof -
  have "workspace ''/w''" by (simp add: workspace_def IsAbs_def Clean_def clean_elems_def)
  moreover have "\<not> IsAbs ''./src//.env''" "''..'' \<notin> set (clean_elems ''./src//.env'')"
    by (simp_all add: IsAbs_def clean_elems_def)
  ultimately show ?thesis
    using EvalPath_respelled [of "''/w''" DefaultPolicy "''./src//.env''"] by blast
qed

text \<open>
  Property C39: a relative path that climbs out of the workspace is not denied for that. Under a
  policy without deny globs and allowed directories it is allowed as long as no secret glob
  matches it, while the absolute path it stands for is denied as outside the workspace.
\<close>
theorem EvalPath_relative_escape:
  assumes "workspace cwd" "\<not> IsAbs s" "\<not> below cwd (Abs cwd s)"
    and "DenyGlobs p = []" "AllowPaths p = []" "\<forall>g \<in> set DefaultSecretGlobs. \<not> globMatch g (Clean s)"
  shows "EvalPath p cwd s = '''' \<and> EvalPath p cwd (Abs cwd s) = ''outside workspace''"
proof
  show "EvalPath p cwd s = ''''"
    using assms by (simp add: EvalPath_rel rel_verdict_Nil Clean_path_of [symmetric])
  have "IsAbs (join_with slash [cwd, s])" "cwd \<noteq> ''''"
    using assms(1) by (auto simp: workspace_def IsAbs_def prefix_def)
  then have "IsAbs (Abs cwd s)" using assms(2) by (simp add: Abs_def Join_def)
  with assms show "EvalPath p cwd (Abs cwd s) = ''outside workspace''"
    by (simp add: EvalPath_rel)
qed

theorem EvalPath_relative_escape_witness:
  "EvalPath DefaultPolicy ''/home/u/w'' ''../other/notes.txt'' = '''' \<and>
   EvalPath DefaultPolicy ''/home/u/w'' ''/home/u/other/notes.txt'' = ''outside workspace''"
proof -
  have w: "workspace ''/home/u/w''" by (simp add: workspace_def IsAbs_def Clean_def clean_elems_def)
  have es: "clean_elems ''../other/notes.txt'' = [''..'', ''other'', ''notes.txt'']"
    by (simp add: clean_elems_def IsAbs_def)
  have rel: "\<not> IsAbs ''../other/notes.txt''" by (simp add: IsAbs_def)
  have ab: "Abs ''/home/u/w'' ''../other/notes.txt'' = ''/home/u/other/notes.txt''"
    by (simp add: Abs_def Join_def Clean_def clean_elems_def IsAbs_def)
  have out: "\<not> below ''/home/u/w'' ''/home/u/other/notes.txt''"
    by (simp add: below_def clean_elems_def IsAbs_def)
  have cl: "Clean ''../other/notes.txt'' = path_of [''..'', ''other'', ''notes.txt'']"
    using es rel by (simp add: Clean_def path_of_def)
  have "\<not> list_ex (\<lambda>g. globMatch g (Clean ''../other/notes.txt'')) DefaultSecretGlobs"
    unfolding cl by (subst secret_globs) (auto simp: secret_elems_def suffix_def)
  then show ?thesis
    using EvalPath_relative_escape [OF w rel, unfolded ab, OF out, of DefaultPolicy]
    by (simp add: list_ex_iff DefaultPolicy_def)
qed

end
