(* ===== verification/Schema.thy ===== *)
theory Schema
  imports Go_Strings Go_Float "HOL-Library.AList"
begin

text \<open>
  \<^verbatim>\<open>internal/schema\<close>: the recursive tool schema (\<^verbatim>\<open>tool_schema.go\<close>), its canonical form, and the
  reading of the legacy argument format. A Go map is an association list in the order the map
  happens to be iterated in, so what is proved for every list holds for every order.
  The scanner of \<^verbatim>\<open>encoding/json\<close> (text to syntax tree, number literal to \<^verbatim>\<open>float64\<close>) is an
  argument; the decoding of a tree into the struct, with its case-insensitive field names,
  \<^verbatim>\<open>null\<close> and repeated fields, is modelled.
\<close>

section \<open>The schema\<close>

datatype JSONSchema = JSONSchema
  (Type: string)
  (Description: string)
  (Properties: "(string \<times> JSONSchema) list option")
  (Required: "string list")
  (Items: "JSONSchema option")
  (Enum: "string list")
  (Minimum: "float64 option")
  (Maximum: "float64 option")
  (AdditionalProperties: "bool option")

text \<open>The loop over the required names: trimmed, blank ones skipped, the first of equal ones kept.\<close>

fun required_loop :: "string list \<Rightarrow> string list \<Rightarrow> string list" where
  "required_loop seen [] = []"
| "required_loop seen (name # names) =
     (let name = TrimSpace name in
      if name = '''' then required_loop seen names
      else if name \<in> set seen then required_loop seen names
      else name # required_loop (name # seen) names)"

definition canonical_type :: "unicode \<Rightarrow> string \<Rightarrow> string" where
  "canonical_type U ty =
     (let t = ToLower U (TrimSpace ty) in if t = '''' then ''object'' else t)"

fun Canonical :: "unicode \<Rightarrow> JSONSchema \<Rightarrow> JSONSchema" where
  "Canonical U (JSONSchema ty desc props req items en mn mx ap) =
     (let t = canonical_type U ty in
      JSONSchema t (TrimSpace desc)
        (case props of None \<Rightarrow> None
         | Some ps \<Rightarrow> Some (map (\<lambda>(name, property). (name, Canonical U property)) ps))
        (if 0 < length req then sort (required_loop [] req) else [])
        (case items of None \<Rightarrow> None | Some it \<Rightarrow> Some (Canonical U it))
        (sort en)
        mn mx
        (case ap of Some v \<Rightarrow> Some v
         | None \<Rightarrow> if t = ''object'' then Some False else None))"

definition ObjectSchema :: "unicode \<Rightarrow> (string \<times> JSONSchema) list option \<Rightarrow> string list \<Rightarrow> JSONSchema"
where
  "ObjectSchema U properties required =
     Canonical U (JSONSchema ''object'' '''' properties required None [] None None (Some False))"

section \<open>JSON as decoded by encoding/json\<close>

datatype json =
    JNull
  | JBool bool
  | JNum string
  | JStr string
  | JArr "json list"
  | JObj "(string \<times> json) list"

record json_lib =
  json_parse :: "string \<Rightarrow> json option"
  json_float :: "string \<Rightarrow> float64 option"

text \<open>A JSON object as a Go map: the last of repeated keys wins.\<close>

definition json_map :: "(string \<times> json) list \<Rightarrow> (string \<times> json) list" where
  "json_map kvs = AList.clearjunk (rev kvs)"

definition schema_fields :: "string list" where
  "schema_fields = [''type'', ''description'', ''properties'', ''required'', ''items'', ''enum'',
     ''minimum'', ''maximum'', ''additionalProperties'']"

definition zero_schema :: JSONSchema where
  "zero_schema = JSONSchema '''' '''' None [] None [] None None None"

fun dec_strings :: "json list \<Rightarrow> string list option" where
  "dec_strings [] = Some []"
| "dec_strings (j # js) =
     (case j of
        JStr s \<Rightarrow> map_option (Cons s) (dec_strings js)
      | JNull \<Rightarrow> map_option (Cons '''') (dec_strings js)
      | _ \<Rightarrow> None)"

definition dec_string_list :: "json \<Rightarrow> string list option" where
  "dec_string_list v = (case v of JNull \<Rightarrow> Some [] | JArr js \<Rightarrow> dec_strings js | _ \<Rightarrow> None)"

definition dec_float :: "json_lib \<Rightarrow> json \<Rightarrow> float64 option option" where
  "dec_float L v = (case v of JNull \<Rightarrow> Some None
     | JNum n \<Rightarrow> (case json_float L n of None \<Rightarrow> None | Some x \<Rightarrow> Some (Some x))
     | _ \<Rightarrow> None)"

text \<open>Decoding a tree into a schema that already holds something; \<open>None\<close> is an error.\<close>

function (sequential)
  dec_schema :: "json_lib \<Rightarrow> unicode \<Rightarrow> json \<Rightarrow> JSONSchema \<Rightarrow> JSONSchema option" and
  dec_fields :: "json_lib \<Rightarrow> unicode \<Rightarrow> (string \<times> json) list \<Rightarrow> JSONSchema \<Rightarrow> JSONSchema option" and
  dec_field :: "json_lib \<Rightarrow> unicode \<Rightarrow> string \<Rightarrow> json \<Rightarrow> JSONSchema \<Rightarrow> JSONSchema option" and
  dec_props :: "json_lib \<Rightarrow> unicode \<Rightarrow> (string \<times> json) list \<Rightarrow>
      (string \<times> JSONSchema) list \<Rightarrow> (string \<times> JSONSchema) list option"
where
  "dec_schema L U JNull s = Some s"
| "dec_schema L U (JObj kvs) s = dec_fields L U kvs s"
| "dec_schema L U _ s = None"
| "dec_fields L U [] s = Some s"
| "dec_fields L U ((k, v) # kvs) s =
     (case dec_field L U k v s of None \<Rightarrow> None | Some s' \<Rightarrow> dec_fields L U kvs s')"
| "dec_field L U k v (JSONSchema ty de pr re it en mn mx ap) =
     (case find (EqualFold U k) schema_fields of
        None \<Rightarrow> Some (JSONSchema ty de pr re it en mn mx ap)
      | Some f \<Rightarrow>
          if f = ''type'' then
            (case v of JStr t \<Rightarrow> Some (JSONSchema t de pr re it en mn mx ap)
             | JNull \<Rightarrow> Some (JSONSchema ty de pr re it en mn mx ap) | _ \<Rightarrow> None)
          else if f = ''description'' then
            (case v of JStr t \<Rightarrow> Some (JSONSchema ty t pr re it en mn mx ap)
             | JNull \<Rightarrow> Some (JSONSchema ty de pr re it en mn mx ap) | _ \<Rightarrow> None)
          else if f = ''properties'' then
            (case v of JNull \<Rightarrow> Some (JSONSchema ty de None re it en mn mx ap)
             | JObj kvs \<Rightarrow> map_option (\<lambda>ps. JSONSchema ty de (Some ps) re it en mn mx ap)
                 (dec_props L U kvs (case pr of None \<Rightarrow> [] | Some ps \<Rightarrow> ps))
             | _ \<Rightarrow> None)
          else if f = ''required'' then
            map_option (\<lambda>xs. JSONSchema ty de pr xs it en mn mx ap) (dec_string_list v)
          else if f = ''items'' then
            (case v of JNull \<Rightarrow> Some (JSONSchema ty de pr re None en mn mx ap)
             | _ \<Rightarrow> map_option (\<lambda>i. JSONSchema ty de pr re (Some i) en mn mx ap)
                 (dec_schema L U v (case it of None \<Rightarrow> zero_schema | Some i \<Rightarrow> i)))
          else if f = ''enum'' then
            map_option (\<lambda>xs. JSONSchema ty de pr re it xs mn mx ap) (dec_string_list v)
          else if f = ''minimum'' then
            map_option (\<lambda>x. JSONSchema ty de pr re it en x mx ap) (dec_float L v)
          else if f = ''maximum'' then
            map_option (\<lambda>x. JSONSchema ty de pr re it en mn x ap) (dec_float L v)
          else
            (case v of JNull \<Rightarrow> Some (JSONSchema ty de pr re it en mn mx None)
             | JBool b \<Rightarrow> Some (JSONSchema ty de pr re it en mn mx (Some b)) | _ \<Rightarrow> None))"
| "dec_props L U [] ps = Some ps"
| "dec_props L U ((k, v) # kvs) ps =
     (case dec_schema L U v zero_schema of
        None \<Rightarrow> None
      | Some s \<Rightarrow> dec_props L U kvs (AList.update k s ps))"
  by pat_completeness auto
termination
  by (relation "measure (\<lambda>p. case p of
        Inl (Inl (L, U, j, s)) \<Rightarrow> 2 * size j + 1
      | Inl (Inr (L, U, kvs, s)) \<Rightarrow> 2 * size_list (size_prod (\<lambda>_. 0) size) kvs
      | Inr (Inl (L, U, k, v, s)) \<Rightarrow> 2 * size v + 2
      | Inr (Inr (L, U, kvs, ps)) \<Rightarrow> 2 * size_list (size_prod (\<lambda>_. 0) size) kvs)") auto

section \<open>The legacy argument format\<close>

definition isStructuredJSONSchema :: "(string \<times> json) list \<Rightarrow> bool" where
  "isStructuredJSONSchema raw \<longleftrightarrow>
     list_ex (\<lambda>key. map_of raw key \<noteq> None)
       [''type'', ''properties'', ''required'', ''items'', ''enum'',
        ''minimum'', ''maximum'', ''additionalProperties'']"

definition containsWordFold :: "unicode \<Rightarrow> string \<Rightarrow> string \<Rightarrow> bool" where
  "containsWordFold U source wanted =
     (let wanted = ToLower U wanted in
      list_ex (\<lambda>word. word = wanted)
        (FieldsFunc (ToLower U source) (\<lambda>r. \<not> IsLetter U r \<and> \<not> IsDigit U r \<and> r \<noteq> 95)))"

definition containsAnyWordFold :: "unicode \<Rightarrow> string \<Rightarrow> string list \<Rightarrow> bool" where
  "containsAnyWordFold U source words = list_ex (containsWordFold U source) words"

fun enum_values :: "string list \<Rightarrow> string list option" where
  "enum_values [] = Some []"
| "enum_values (part # parts) =
     (let part = TrimSpace part in
      if part = '''' \<or> ContainsAny part '' ,;'' then None
      else map_option (Cons part) (enum_values parts))"

definition legacyStringEnum :: "string \<Rightarrow> string list" where
  "legacyStringEnum description =
     (case (IndexByte description (CHR ''(''), IndexByte description (CHR '')'')) of
        (Some start, Some end') \<Rightarrow>
          if end' \<le> start + 1 then []
          else
            let candidate = drop (start + 1) (take end' description) in
            if \<not> Contains candidate ''|'' then []
            else (case enum_values (Split candidate (CHR ''|'')) of None \<Rightarrow> [] | Some vs \<Rightarrow> vs)
      | _ \<Rightarrow> [])"

definition legacyProperty :: "unicode \<Rightarrow> string \<Rightarrow> JSONSchema" where
  "legacyProperty U description =
     JSONSchema
       (if containsAnyWordFold U description [''int'', ''integer'', ''count''] then ''integer''
        else if containsAnyWordFold U description [''number'', ''float'', ''decimal''] then ''number''
        else if containsAnyWordFold U description [''bool'', ''boolean''] then ''boolean''
        else ''string'')
       (TrimSpace description) None [] None (legacyStringEnum description) None None None"

text \<open>One entry of the legacy object: its property, and whether its name is required.\<close>

definition dec_description :: "json \<Rightarrow> string option" where
  "dec_description v = (case v of JStr s \<Rightarrow> Some s | JNull \<Rightarrow> Some '''' | _ \<Rightarrow> None)"

definition legacy_entry :: "json_lib \<Rightarrow> unicode \<Rightarrow> json \<Rightarrow> JSONSchema \<times> bool" where
  "legacy_entry L U encoded =
     (case dec_description encoded of
        Some description \<Rightarrow>
          (legacyProperty U description, \<not> containsWordFold U description ''optional'')
      | None \<Rightarrow>
          (case dec_schema L U encoded zero_schema of
             None \<Rightarrow> (Canonical U (JSONSchema ''string'' '''' None [] None [] None None None), False)
           | Some property \<Rightarrow> (Canonical U property, False)))"

definition ParseLegacyArgsSchema :: "json_lib \<Rightarrow> unicode \<Rightarrow> string \<Rightarrow> JSONSchema" where
  "ParseLegacyArgsSchema L U source0 =
     (let source = TrimSpace source0 in
      if source = '''' then ObjectSchema U None []
      else
        (case json_parse L source of
           Some (JObj kvs) \<Rightarrow>
             let raw = json_map kvs in
             if isStructuredJSONSchema raw then
               (case dec_schema L U (JObj kvs) zero_schema of
                  None \<Rightarrow> ObjectSchema U None []
                | Some schema \<Rightarrow> Canonical U schema)
             else
               ObjectSchema U
                 (Some (map (\<lambda>(name, encoded). (name, fst (legacy_entry L U encoded))) raw))
                 (map fst (filter (\<lambda>(name, encoded). snd (legacy_entry L U encoded)) raw))
         | Some JNull \<Rightarrow> ObjectSchema U (Some []) []
         | _ \<Rightarrow> ObjectSchema U None []))"

section \<open>Tool definitions\<close>

record ToolDefinition =
  Name :: string
  Description_td :: string
  Parameters :: "JSONSchema option"
  ArgsSchema :: string

definition CanonicalSchema :: "json_lib \<Rightarrow> unicode \<Rightarrow> ToolDefinition \<Rightarrow> JSONSchema" where
  "CanonicalSchema L U d =
     (case Parameters d of
        Some p \<Rightarrow> Canonical U p
      | None \<Rightarrow> ParseLegacyArgsSchema L U (ArgsSchema d))"

section \<open>The canonical form\<close>

text \<open>
  What \<open>Canonical\<close> promises at every depth: a known spelling of the type, trimmed texts, the
  required names trimmed, without blanks and duplicates and in byte order, the enumeration in
  byte order, and no object that leaves open whether it is closed.
\<close>

definition required_ok :: "string list \<Rightarrow> bool" where
  "required_ok req \<longleftrightarrow> sorted req \<and> distinct req \<and> (\<forall>n \<in> set req. n \<noteq> '''' \<and> trimmed n)"

fun canonical :: "unicode \<Rightarrow> JSONSchema \<Rightarrow> bool" where
  "canonical U (JSONSchema ty desc props req items en mn mx ap) \<longleftrightarrow>
     canonical_type U ty = ty \<and> trimmed desc \<and> required_ok req \<and> sorted en \<and>
     (ty = ''object'' \<longrightarrow> ap \<noteq> None) \<and>
     (case props of None \<Rightarrow> True | Some ps \<Rightarrow> list_all (\<lambda>(n, p). canonical U p) ps) \<and>
     (case items of None \<Rightarrow> True | Some it \<Rightarrow> canonical U it)"

fun ascii_types :: "JSONSchema \<Rightarrow> bool" where
  "ascii_types (JSONSchema ty desc props req items en mn mx ap) \<longleftrightarrow>
     ascii ty \<and>
     (case props of None \<Rightarrow> True | Some ps \<Rightarrow> list_all (\<lambda>(n, p). ascii_types p) ps) \<and>
     (case items of None \<Rightarrow> True | Some it \<Rightarrow> ascii_types it)"

lemma required_loop_Cons:
  "required_loop seen (name # names) =
     (if TrimSpace name = '''' \<or> TrimSpace name \<in> set seen then required_loop seen names
      else TrimSpace name # required_loop (TrimSpace name # seen) names)"
  by (simp add: Let_def)

lemma required_loop_props:
  "distinct (required_loop seen req) \<and> set (required_loop seen req) \<inter> set seen = {} \<and>
   (\<forall>n \<in> set (required_loop seen req). n \<noteq> '''' \<and> trimmed n)"
proof (induction req arbitrary: seen)
  case Nil
  then show ?case by simp
next
  case (Cons name names)
  obtain t where t: "TrimSpace name = t" "trimmed t" by (metis TrimSpace_trimmed)
  show ?case

  proof (cases "t = '''' \<or> t \<in> set seen")
    case True
    with Cons [of seen] show ?thesis unfolding required_loop_Cons t(1) if_P [OF True] by blast
  next
    case False
    have "set (t # required_loop (t # seen) names) \<inter> set seen = {}"
      using Cons [of "t # seen"] False by auto
    then show ?thesis
      using Cons [of "t # seen"] False t(2) unfolding required_loop_Cons t(1) if_not_P [OF False] by auto
  qed
qed

lemma set_required_loop: "set (required_loop seen req) = {TrimSpace n |n. n \<in> set req} - {''''} - set seen"
  by (induction seen req rule: required_loop.induct) (auto simp: Let_def)

lemma required_loop_id:
  "distinct req \<Longrightarrow> set req \<inter> set seen = {} \<Longrightarrow> (\<forall>n \<in> set req. n \<noteq> '''' \<and> trimmed n) \<Longrightarrow>
     required_loop seen req = req"
  by (induction req arbitrary: seen) (auto simp: trimmed_TrimSpace Let_def)

lemma required_ok_loop: "required_ok (sort (required_loop [] req))"
  using required_loop_props [of "[]" req] by (auto simp: required_ok_def)

lemma required_ok_id: "required_ok req \<Longrightarrow> sort (required_loop [] req) = req"
  by (simp add: required_ok_def required_loop_id sorted_sort_id)

lemma canonical_required:
  "(if 0 < length req then sort (required_loop [] req) else []) = sort (required_loop [] req)"
  by simp

lemma sort_id_iff: "sort xs = xs \<longleftrightarrow> sorted xs"
  by (metis sorted_sort sorted_sort_id)

lemma canonical_required_fix: "sort (required_loop [] req) = req \<longleftrightarrow> required_ok req"
  by (metis required_ok_id required_ok_loop)

lemma canonical_type_idem:
  assumes "ascii ty" shows "canonical_type U (canonical_type U ty) = canonical_type U ty"
proof -
  let ?s = "map lower_byte (TrimSpace ty)"
  have a: "ascii (TrimSpace ty)" using assms by (rule ascii_TrimSpace)
  then have "trimmed ?s" by (intro trimmed_lower) simp_all
  moreover have "ToLower U ?s = map lower_byte ?s" by (rule ToLower_ascii_map [OF ascii_lower [OF a]])
  ultimately have s: "ToLower U (TrimSpace ?s) = ?s" by (simp add: trimmed_TrimSpace)
  have ob: "ToLower U (TrimSpace ''object'') = ''object''"
  proof -
    have "trimmed ''object''" by (rule graphic_trimmed) (simp add: graphic_def)
    then show ?thesis by (simp add: trimmed_TrimSpace ToLower_ascii_map lower_byte_def)
  qed
  have ct: "canonical_type U ty = (if ?s = '''' then ''object'' else ?s)"
    unfolding canonical_type_def Let_def ToLower_ascii_map [OF a] ..
  show ?thesis
  proof (cases "?s = ''''")
    case True
    show ?thesis unfolding ct if_P [OF True] unfolding canonical_type_def Let_def ob by simp
  next
    case False
    show ?thesis unfolding ct if_not_P [OF False] unfolding canonical_type_def Let_def s using False by argo
  qed
qed

lemma Canonical_eq:
  "Canonical U (JSONSchema ty desc props req items en mn mx ap) =
     JSONSchema (canonical_type U ty) (TrimSpace desc)
       (map_option (map (\<lambda>(name, p). (name, Canonical U p))) props) (sort (required_loop [] req))
       (map_option (Canonical U) items) (sort en) mn mx
       (if ap = None \<and> canonical_type U ty = ''object'' then Some False else ap)"
  by (simp add: Let_def split: option.splits)

lemma JSONSchema_induct [case_names schema]:
  assumes "\<And>ty desc props req items en mn mx ap.
     (\<And>ps n p. props = Some ps \<Longrightarrow> (n, p) \<in> set ps \<Longrightarrow> P p) \<Longrightarrow> (\<And>i. items = Some i \<Longrightarrow> P i) \<Longrightarrow>
     P (JSONSchema ty desc props req items en mn mx ap)"
  shows "P s"
proof (induction s)
  case (JSONSchema ty desc props req items en mn mx ap)
  then show ?case by (intro assms) (force)+
qed

lemma required_ok_Nil [simp]: "required_ok []"
  by (simp add: required_ok_def)

lemma Canonical_canonical: "ascii_types s \<Longrightarrow> canonical U (Canonical U s)"
proof (induction s rule: JSONSchema_induct)
  case (schema ty desc props req items en mn mx ap)
  have "canonical_type U (canonical_type U ty) = canonical_type U ty"
    using schema.prems by (intro canonical_type_idem) simp
  moreover have "list_all (\<lambda>(n, p). canonical U p) (map (\<lambda>(n, p). (n, Canonical U p)) ps)"
    if "props = Some ps" for ps
    using schema.IH(1) [OF that] schema.prems that by (fastforce simp: list_all_iff)
  moreover have "canonical U (Canonical U i)" if "items = Some i" for i
    using schema.IH(2) [OF that] schema.prems that by simp
  ultimately show ?case
    unfolding Canonical_eq by (cases props; cases items; cases ap) (simp_all add: required_ok_loop)
qed

lemma Canonical_fixed: "Canonical U s = s \<longleftrightarrow> canonical U s"
proof (induction s rule: JSONSchema_induct)
  case (schema ty desc props req items en mn mx ap)
  have "map (\<lambda>(n, p). (n, Canonical U p)) ps = ps \<longleftrightarrow> list_all (\<lambda>(n, p). canonical U p) ps"
    if "props = Some ps" for ps
  proof -
    have "map (\<lambda>(n, p). (n, Canonical U p)) ps = ps \<longleftrightarrow> (\<forall>(n, p) \<in> set ps. Canonical U p = p)"
      by (induction ps) auto
    also have "\<dots> \<longleftrightarrow> list_all (\<lambda>(n, p). canonical U p) ps"
      using schema(1) [OF that] by (fastforce simp: list_all_iff)
    finally show ?thesis .
  qed
  moreover have "Canonical U i = i \<longleftrightarrow> canonical U i" if "items = Some i" for i
    using schema(2) [OF that] .
  ultimately show ?case
    unfolding Canonical_eq
    by (cases props; cases items; cases ap)
      (auto simp: trimmed_iff canonical_required_fix sort_id_iff)
qed

interpretation canon: normaliser "Canonical U" "canonical U" ascii_types for U
  by unfold_locales (simp_all only: Canonical_canonical Canonical_fixed)

section \<open>Reading legacy arguments\<close>

lemma ObjectSchema_eq:
  "ObjectSchema U props req =
     JSONSchema ''object'' '''' (map_option (map (\<lambda>(n, p). (n, Canonical U p))) props)
       (sort (required_loop [] req)) None [] None None (Some False)"
proof -
  have "trimmed ''object''" by (rule graphic_trimmed) (simp add: graphic_def)
  then have "canonical_type U ''object'' = ''object''"
    by (simp add: canonical_type_def trimmed_TrimSpace ToLower_ascii_map lower_byte_def)
  then show ?thesis unfolding ObjectSchema_def Canonical_eq by simp
qed

lemma dec_fields_unknown:
  "(\<forall>(k, v) \<in> set kvs. find (EqualFold U k) schema_fields = None) \<Longrightarrow> dec_fields L U kvs s = Some s"
proof (induction kvs)
  case Nil
  then show ?case by simp
next
  case (Cons kv kvs)
  then show ?case by (cases kv; cases s) auto
qed

lemma find_field_type: "find (EqualFold U ''type'') schema_fields = Some ''type''"
  by (simp add: schema_fields_def)

text \<open>
  A legacy object one of whose arguments is called \<^verbatim>\<open>type\<close> is taken for a structured
  schema. Unless that argument's description reads \<^verbatim>\<open>object\<close>, the result names no property,
  requires nothing and does not close the object: the description of every other argument is lost.
\<close>
lemma legacy_type_schema:
  assumes "TrimSpace source \<noteq> ''''" "json_parse L (TrimSpace source) = Some (JObj ((''type'', JStr d) # kvs))"
    and "\<forall>(k, v) \<in> set kvs. find (EqualFold U k) schema_fields = None"
    and "canonical_type U d \<noteq> ''object''"
  shows "ParseLegacyArgsSchema L U source
    = JSONSchema (canonical_type U d) '''' None [] None [] None None None"
proof -
  have dec: "dec_schema L U (JObj ((''type'', JStr d) # kvs)) zero_schema
      = Some (JSONSchema d '''' None [] None [] None None None)"
    using dec_fields_unknown [OF assms(3)] by (simp add: zero_schema_def find_field_type)
  have "map_of (json_map ((''type'', JStr d) # kvs)) ''type'' \<noteq> None"
    by (simp add: json_map_def map_of_clearjunk map_of_eq_None_iff)
  then have st: "isStructuredJSONSchema (json_map ((''type'', JStr d) # kvs))"
    by (simp add: isStructuredJSONSchema_def)
  show ?thesis
    unfolding ParseLegacyArgsSchema_def Let_def assms(2) option.case json.case if_P [OF st] dec
      if_not_P [OF assms(1)] Canonical_eq
    using assms(4) by simp
qed

section \<open>Properties\<close>

text \<open>
  The schemas that canonicalisation leaves alone are exactly the canonical ones: at
  every depth a trimmed lower-case type that is not blank, trimmed descriptions, required names
  trimmed, sorted and without blanks or duplicates, sorted enumerations, and no object that
  leaves open whether it admits additional properties.
\<close>
theorem Canonical_fixed_iff: "Canonical U s = s \<longleftrightarrow> canonical U s"
  by (rule canon.form_fixed)

text \<open>
  Property C25: the canonical form of a schema whose type names are ASCII is canonical, and
  canonicalising it again (as the guardrail does at registration and at each check) changes nothing.
\<close>
theorem Canonical_idempotent:
  assumes "ascii_types s"
  shows "canonical U (Canonical U s) \<and> Canonical U (Canonical U s) = Canonical U s"
  using canon.norm_form [OF assms] canon.idem [OF assms] by blast

theorem Canonical_idempotent_witness:
  "canonical ascii_only (Canonical ascii_only (JSONSchema '' Object '' '''' None [''b '', ''a'', ''b''] None [] None None None))
   \<and> Canonical ascii_only (Canonical ascii_only (JSONSchema '' Object '' '''' None [''b '', ''a'', ''b''] None [] None None None))
     = Canonical ascii_only (JSONSchema '' Object '' '''' None [''b '', ''a'', ''b''] None [] None None None)"
  by (rule Canonical_idempotent) simp

text \<open>
  A legacy object without schema keywords becomes a closed object schema that has
  exactly its keys as properties and requires, trimmed and without blanks, the names whose
  description does not say \<^verbatim>\<open>optional\<close>; a nested schema in place of a description is never required.
\<close>
theorem legacy_object_schema:
  assumes "TrimSpace source \<noteq> ''''" "json_parse L (TrimSpace source) = Some (JObj kvs)"
    and "\<not> isStructuredJSONSchema (json_map kvs)"
    and s_def: "s = ParseLegacyArgsSchema L U source"
  shows "Type s = ''object'' \<and> AdditionalProperties s = Some False \<and>
     map_option (map fst) (Properties s) = Some (map fst (json_map kvs)) \<and>
     sorted (Required s) \<and> distinct (Required s) \<and>
     set (Required s) = {TrimSpace k | k v d. (k, v) \<in> set (json_map kvs) \<and>
        dec_description v = Some d \<and> \<not> containsWordFold U d ''optional''} - {''''}"
proof -
  let ?raw = "json_map kvs"
  have req: "snd (legacy_entry L U v) \<longleftrightarrow>
      (\<exists>d. dec_description v = Some d \<and> \<not> containsWordFold U d ''optional'')" for v
    by (auto simp: legacy_entry_def split: option.splits)
  define names where "names = map fst (filter (\<lambda>(k, v). snd (legacy_entry L U v)) ?raw)"
  have s: "s = ObjectSchema U (Some (map (\<lambda>(k, v). (k, fst (legacy_entry L U v))) ?raw)) names"
    using assms(1-3) by (simp add: s_def ParseLegacyArgsSchema_def names_def Let_def)
  have "set (Required s) = {TrimSpace n |n. n \<in> set names} - {''''}"
    unfolding s ObjectSchema_eq by (simp add: set_required_loop)
  moreover have "{TrimSpace n |n. n \<in> set names} = {TrimSpace k | k v d. (k, v) \<in> set ?raw \<and>
        dec_description v = Some d \<and> \<not> containsWordFold U d ''optional''}"
  proof -
    have "n \<in> set names \<longleftrightarrow> (\<exists>v d. (n, v) \<in> set ?raw \<and> dec_description v = Some d \<and>
        \<not> containsWordFold U d ''optional'')" for n
      unfolding names_def by (auto simp: req image_iff Bex_def)
    then show ?thesis by auto
  qed
  moreover have "sorted (Required s) \<and> distinct (Required s)"
    using required_ok_loop [of names] unfolding s ObjectSchema_eq by (simp add: required_ok_def)
  moreover have "map_option (map fst) (Properties s) = Some (map fst ?raw)"
    unfolding s ObjectSchema_eq by (simp add: comp_def split_def)
  moreover have "Type s = ''object'' \<and> AdditionalProperties s = Some False"
    unfolding s ObjectSchema_eq by simp
  ultimately show ?thesis by simp
qed

theorem legacy_object_schema_witness:
  "AdditionalProperties (ParseLegacyArgsSchema
     \<lparr>json_parse = \<lambda>_. Some (JObj [(''path'', JStr ''string'')]), json_float = \<lambda>_. None\<rparr> ascii_only ''{}'')
   = Some False"
proof -
  have "TrimSpace ''{}'' = ''{}''"
    by (rule trimmed_TrimSpace, rule graphic_trimmed) (simp add: graphic_def)
  then show ?thesis
    using legacy_object_schema [of "''{}''"
      "\<lparr>json_parse = \<lambda>_. Some (JObj [(''path'', JStr ''string'')]), json_float = \<lambda>_. None\<rparr>"
      "[(''path'', JStr ''string'')]" _ ascii_only, OF _ _ _ refl]
    by (simp add: isStructuredJSONSchema_def json_map_def)
qed

end
