(* ===== verification/Guardrail.thy ===== *)
theory Guardrail
  imports Schema Go_Filepath "HOL-Library.Multiset"
begin

text \<open>
  \<^verbatim>\<open>internal/paldron/paldron.go\<close>: the check of a tool call against the network policy, the
  registered argument schema, the blocked patterns and the rules of the individual tools.
  The arguments of a call are an association list in the order their map is iterated in.
  The mutex of the source makes every operation atomic, so an operation is one function on the
  state. Error values keep the parts of the message that depend on the input.
\<close>

section \<open>Values and errors\<close>

text \<open>
  What an \<^verbatim>\<open>interface{}\<close> holds, as far as the code tells values apart: signed and unsigned
  integers of any width, both float types (a \<^verbatim>\<open>float32\<close> by its exact value), slices of any
  element type, \<^verbatim>\<open>map[string]interface{}\<close>, and anything else.
\<close>

datatype goval =
    VNil
  | VBool bool
  | VFloat float64
  | VFloat32 float64
  | VInt int
  | VUint nat
  | VStr string
  | VArr "goval list"
  | VObj "(string \<times> goval) list"
  | VOther

datatype check_error =
    NilCall
  | NeedsNetwork string
  | ExecNotIsolated
  | PushNeedsNetwork
  | GitNotIsolated
  | MissingArgument string string
  | UnknownArgument string string
  | NotInEnum string string "string list"
  | WrongType string string string
  | UnsupportedType string string string
  | TooSmall string string float64
  | TooLarge string string float64
  | BlockedPattern string string
  | SuspiciousPath string
  | NeedsAbsolutePath string
  | EmptyCommand
  | NeedsAbsoluteDir
  | ShellOperator string
  | NeedsAbsoluteCwd

section \<open>Numbers\<close>

definition numberValue :: "goval \<Rightarrow> float64 option" where
  "numberValue v =
     (case v of
        VFloat x \<Rightarrow> if \<not> IsNaN x \<and> \<not> IsInf x then Some x else None
      | VFloat32 x \<Rightarrow> if \<not> IsNaN x \<and> \<not> IsInf x then Some x else None
      | VInt i \<Rightarrow> Some (float_of_int i)
      | VUint n \<Rightarrow> Some (float_of_int (int n))
      | _ \<Rightarrow> None)"

definition isNumber :: "goval \<Rightarrow> bool" where
  "isNumber v \<longleftrightarrow> numberValue v \<noteq> None"

definition isInteger :: "goval \<Rightarrow> bool" where
  "isInteger v =
     (case v of
        VFloat x \<Rightarrow> \<not> IsNaN x \<and> \<not> IsInf x \<and> Trunc x = x
      | VFloat32 x \<Rightarrow> \<not> IsNaN x \<and> \<not> IsInf x \<and> Trunc x = x
      | VInt _ \<Rightarrow> True
      | VUint _ \<Rightarrow> True
      | _ \<Rightarrow> False)"

definition validateNumberBounds :: "string \<Rightarrow> string \<Rightarrow> goval \<Rightarrow> JSONSchema \<Rightarrow> check_error option"
where
  "validateNumberBounds toolName path value sch =
     (case numberValue value of
        None \<Rightarrow> None
      | Some number \<Rightarrow>
          then_check
            (case Minimum sch of
               Some m \<Rightarrow> if number < m then Some (TooSmall path toolName m) else None
             | None \<Rightarrow> None)
            (case Maximum sch of
               Some m \<Rightarrow> if m < number then Some (TooLarge path toolName m) else None
             | None \<Rightarrow> None))"

section \<open>Arguments against a schema\<close>

definition joinArgumentPath :: "string \<Rightarrow> string \<Rightarrow> string" where
  "joinArgumentPath parent child = (if parent = '''' then child else parent @ ''.'' @ child)"

definition containsString :: "string list \<Rightarrow> string \<Rightarrow> bool" where
  "containsString values wanted = list_ex (\<lambda>value. value = wanted) values"

definition schemaTypeError :: "string \<Rightarrow> string \<Rightarrow> string \<Rightarrow> check_error" where
  "schemaTypeError toolName path wanted = WrongType path toolName wanted"

definition property_of :: "JSONSchema \<Rightarrow> string \<Rightarrow> JSONSchema option" where
  "property_of sch key = (case Properties sch of None \<Rightarrow> None | Some ps \<Rightarrow> map_of ps key)"

definition checkEnum :: "string \<Rightarrow> string \<Rightarrow> goval \<Rightarrow> JSONSchema \<Rightarrow> check_error option" where
  "checkEnum toolName path value sch =
     (if 0 < length (Enum sch) then
        (case value of
           VStr text \<Rightarrow> if containsString (Enum sch) text then None
                       else Some (NotInEnum path toolName (Enum sch))
         | _ \<Rightarrow> Some (NotInEnum path toolName (Enum sch)))
      else None)"

function (sequential)
  validateObject :: "string \<Rightarrow> string \<Rightarrow> (string \<times> goval) list \<Rightarrow> JSONSchema \<Rightarrow> check_error option" and
  validateJSONValue :: "string \<Rightarrow> string \<Rightarrow> goval \<Rightarrow> JSONSchema \<Rightarrow> check_error option"
where
  "validateObject toolName path value sch =
     then_check
       (first_error (\<lambda>key. if map_of value key = None
            then Some (MissingArgument (joinArgumentPath path key) toolName) else None)
          (Required sch))
       (first_error (\<lambda>key.
            case property_of sch key of
              None \<Rightarrow> if AdditionalProperties sch = Some False
                then Some (UnknownArgument (joinArgumentPath path key) toolName) else None
            | Some property \<Rightarrow>
                (case map_of value key of
                   Some v \<Rightarrow> validateJSONValue toolName (joinArgumentPath path key) v property
                 | None \<Rightarrow> None))
          (sort (map fst value)))"
| "validateJSONValue toolName path value sch =
     then_check (checkEnum toolName path value sch)
       (if Type sch = '''' \<or> Type sch = ''any'' then None
        else if Type sch = ''string'' then
          (case value of VStr _ \<Rightarrow> None | _ \<Rightarrow> Some (schemaTypeError toolName path ''a string''))
        else if Type sch = ''integer'' then
          (if \<not> isInteger value then Some (schemaTypeError toolName path ''an integer'')
           else validateNumberBounds toolName path value sch)
        else if Type sch = ''number'' then
          (if \<not> isNumber value then Some (schemaTypeError toolName path ''a number'')
           else validateNumberBounds toolName path value sch)
        else if Type sch = ''boolean'' then
          (case value of VBool _ \<Rightarrow> None | _ \<Rightarrow> Some (schemaTypeError toolName path ''a boolean''))
        else if Type sch = ''object'' then
          (case value of VObj obj \<Rightarrow> validateObject toolName path obj sch
           | _ \<Rightarrow> Some (schemaTypeError toolName path ''an object''))
        else if Type sch = ''array'' then
          (case value of
             VArr arr \<Rightarrow>
               (case Items sch of
                  None \<Rightarrow> None
                | Some items \<Rightarrow>
                    first_error (\<lambda>(i, v).
                        validateJSONValue toolName (path @ ''['' @ nat_dec i @ '']'') v items)
                      (enumerate 0 arr))
           | _ \<Rightarrow> Some (schemaTypeError toolName path ''an array''))
        else Some (UnsupportedType path toolName (Type sch)))"
  by pat_completeness auto
termination
proof (relation "measure (\<lambda>p. case p of
    Inl (t, path, obj, s) \<Rightarrow> size_list (size_prod (\<lambda>_. 0) size) obj
  | Inr (t, path, v, s) \<Rightarrow> size v)", goal_cases)
  case 1
  then show ?case by simp
next
  case (2 toolName path obj sch key p v)
  then have "(key, v) \<in> set obj" by (simp add: map_of_SomeD)
  then have "size_prod (\<lambda>_. 0) size (key, v) \<le> size_list (size_prod (\<lambda>_. 0) size) obj"
    by (rule size_list_estimation') simp
  then show ?case by simp
next
  case 3
  then show ?case by simp
next
  case (4 toolName path w sch arr items iv i v)
  then have "v \<in> set arr" by (auto simp: enumerate_eq_zip dest: set_zip_rightD)
  then have "size v \<le> size_list size arr" by (rule size_list_estimation') simp
  with 4 show ?case by simp
qed

declare validateObject.simps [simp del] validateJSONValue.simps [simp del]

section \<open>The guardrail\<close>

record ToolCall =
  ToolName :: string
  Args :: "(string \<times> goval) list"

record SecurityConfig =
  EnableGuardrails :: bool
  BlockedCommands :: "string list"
  NetworkAllowed :: bool

record Paldron =
  cfg :: SecurityConfig
  schemas :: "string \<rightharpoonup> JSONSchema"
  isolatedExecutionAvailable :: bool

definition New :: "SecurityConfig \<Rightarrow> Paldron" where
  "New c = \<lparr>cfg = c, schemas = Map.empty, isolatedExecutionAvailable = False\<rparr>"

definition SetIsolatedExecutionAvailable :: "bool \<Rightarrow> Paldron \<Rightarrow> Paldron" where
  "SetIsolatedExecutionAvailable available g = g\<lparr>isolatedExecutionAvailable := available\<rparr>"

definition hasIsolatedExecution :: "Paldron \<Rightarrow> bool" where
  "hasIsolatedExecution g = isolatedExecutionAvailable g"

definition RegisterJSONSchema :: "unicode \<Rightarrow> string \<Rightarrow> JSONSchema \<Rightarrow> Paldron \<Rightarrow> Paldron" where
  "RegisterJSONSchema U name sch g = g\<lparr>schemas := (schemas g)(name \<mapsto> Canonical U sch)\<rparr>"

definition RegisterSchema :: "json_lib \<Rightarrow> unicode \<Rightarrow> string \<Rightarrow> string \<Rightarrow> Paldron \<Rightarrow> Paldron" where
  "RegisterSchema L U name legacy g = RegisterJSONSchema U name (ParseLegacyArgsSchema L U legacy) g"

definition RegisterDefinition :: "json_lib \<Rightarrow> unicode \<Rightarrow> ToolDefinition \<Rightarrow> Paldron \<Rightarrow> Paldron" where
  "RegisterDefinition L U d g = RegisterJSONSchema U (Name d) (CanonicalSchema L U d) g"

text \<open>\<^verbatim>\<open>x, _ := call.Args[key].(string)\<close>: the string, or the empty one.\<close>

definition string_arg :: "ToolCall \<Rightarrow> string \<Rightarrow> string" where
  "string_arg call key = (case map_of (Args call) key of Some (VStr s) \<Rightarrow> s | _ \<Rightarrow> '''')"

definition network_tools :: "string list" where
  "network_tools = [''wolfram'', ''http_request'', ''web_search'', ''web_scrape'',
     ''ask_cloud_model'', ''analyze_image'']"

definition ToolAvailable :: "Paldron \<Rightarrow> string \<Rightarrow> bool" where
  "ToolAvailable g name =
     (if NetworkAllowed (cfg g) then True
      else if name = ''execute_code'' \<or> name = ''git_ops'' then hasIsolatedExecution g
      else if name \<in> set network_tools then False
      else True)"

definition checkNetworkPolicy :: "unicode \<Rightarrow> Paldron \<Rightarrow> ToolCall \<Rightarrow> check_error option" where
  "checkNetworkPolicy U g call =
     (if NetworkAllowed (cfg g) then None
      else if ToolName call \<in> set network_tools then Some (NeedsNetwork (ToolName call))
      else if ToolName call = ''execute_code'' then
        (if \<not> hasIsolatedExecution g then Some ExecNotIsolated else None)
      else if ToolName call = ''git_ops'' then
        (if EqualFold U (TrimSpace (string_arg call ''action'')) ''push'' then Some PushNeedsNetwork
         else if \<not> hasIsolatedExecution g then Some GitNotIsolated
         else None)
      else None)"

definition validateToolSemantics :: "ToolCall \<Rightarrow> check_error option" where
  "validateToolSemantics call =
     (if ToolName call \<in> {''write_file'', ''edit_file'', ''read_file''} then
        (let path = string_arg call ''path'' in
         if path = '''' then None
         else if \<not> IsAbs (Clean path) then Some (NeedsAbsolutePath (ToolName call))
         else None)
      else if ToolName call = ''execute_code'' then
        (let command = string_arg call ''command''; dir = string_arg call ''dir'' in
         if TrimSpace command = '''' then Some EmptyCommand
         else if \<not> IsAbs (Clean dir) then Some NeedsAbsoluteDir
         else first_error (\<lambda>token. if Contains command token then Some (ShellOperator token) else None)
           [''&&'', ''||'', '';'', ''|'', ''$('', [CHR 0x60]])
      else if ToolName call = ''git_ops'' then
        (let cwd = string_arg call ''cwd'' in
         if cwd \<noteq> '''' \<and> \<not> IsAbs (Clean cwd) then Some NeedsAbsoluteCwd else None)
      else None)"

definition validateSchema :: "unicode \<Rightarrow> ToolCall \<Rightarrow> JSONSchema \<Rightarrow> check_error option" where
  "validateSchema U call sch = validateObject (ToolName call) '''' (Args call) (Canonical U sch)"

text \<open>The body of the loop over the arguments.\<close>

definition check_patterns :: "unicode \<Rightarrow> string list \<Rightarrow> string \<times> goval \<Rightarrow> check_error option" where
  "check_patterns U blocked_commands arg =
     (case arg of
        (key, VStr strVal) \<Rightarrow>
          let normalized = ToLower U (TrimSpace strVal) in
          then_check
            (first_error (\<lambda>blocked. if Contains normalized (ToLower U blocked)
               then Some (BlockedPattern blocked key) else None) blocked_commands)
            (if Contains normalized ''../'' \<or> Contains normalized ''~/.ssh'' \<or>
                Contains normalized ''/etc/'' then Some (SuspiciousPath key) else None)
      | _ \<Rightarrow> None)"

definition Check :: "unicode \<Rightarrow> Paldron \<Rightarrow> ToolCall option \<Rightarrow> check_error option" where
  "Check U g call_ptr =
     (case call_ptr of
        None \<Rightarrow> Some NilCall
      | Some call \<Rightarrow>
          then_check (checkNetworkPolicy U g call)
            (if \<not> EnableGuardrails (cfg g) then None
             else
               then_check
                 (case schemas g (ToolName call) of
                    Some sch \<Rightarrow> validateSchema U call sch | None \<Rightarrow> None)
                 (then_check
                    (first_error (check_patterns U (BlockedCommands (cfg g))) (Args call))
                    (validateToolSemantics call))))"

section \<open>What conforming to a schema means\<close>

definition enum_ok :: "goval \<Rightarrow> JSONSchema \<Rightarrow> bool" where
  "enum_ok v s \<longleftrightarrow> Enum s = [] \<or> v \<in> VStr ` set (Enum s)"

definition in_bounds :: "JSONSchema \<Rightarrow> float64 \<Rightarrow> bool" where
  "in_bounds s x \<longleftrightarrow> (\<forall>m. Minimum s = Some m \<longrightarrow> \<not> x < m) \<and> (\<forall>m. Maximum s = Some m \<longrightarrow> \<not> m < x)"

text \<open>
  Objects and values against a schema, one rule for each type the validator knows.
\<close>

inductive
  conforms_args :: "(string \<times> goval) list \<Rightarrow> JSONSchema \<Rightarrow> bool" and
  conforms :: "goval \<Rightarrow> JSONSchema \<Rightarrow> bool"
where
  args: "set (Required s) \<subseteq> dom (map_of obj) \<Longrightarrow>
     (\<And>k v. map_of obj k = Some v \<Longrightarrow> property_of s k = None \<Longrightarrow> AdditionalProperties s \<noteq> Some False) \<Longrightarrow>
     (\<And>k v p. map_of obj k = Some v \<Longrightarrow> property_of s k = Some p \<Longrightarrow> conforms v p) \<Longrightarrow>
     conforms_args obj s"
| any: "enum_ok v s \<Longrightarrow> Type s \<in> {'''', ''any''} \<Longrightarrow> conforms v s"
| string: "enum_ok (VStr t) s \<Longrightarrow> Type s = ''string'' \<Longrightarrow> conforms (VStr t) s"
| integer: "enum_ok v s \<Longrightarrow> Type s = ''integer'' \<Longrightarrow> isInteger v \<Longrightarrow> numberValue v = Some x \<Longrightarrow>
     in_bounds s x \<Longrightarrow> conforms v s"
| number: "enum_ok v s \<Longrightarrow> Type s = ''number'' \<Longrightarrow> numberValue v = Some x \<Longrightarrow> in_bounds s x \<Longrightarrow> conforms v s"
| boolean: "enum_ok (VBool b) s \<Longrightarrow> Type s = ''boolean'' \<Longrightarrow> conforms (VBool b) s"
| object: "enum_ok (VObj obj) s \<Longrightarrow> Type s = ''object'' \<Longrightarrow> conforms_args obj s \<Longrightarrow> conforms (VObj obj) s"
| array: "enum_ok (VArr vs) s \<Longrightarrow> Type s = ''array'' \<Longrightarrow>
     (\<And>v i. v \<in> set vs \<Longrightarrow> Items s = Some i \<Longrightarrow> conforms v i) \<Longrightarrow> conforms (VArr vs) s"

inductive_simps conforms_args_iff: "conforms_args obj s"
inductive_simps conforms_iff: "conforms v s"

lemma checkEnum_None: "checkEnum t path v s = None \<longleftrightarrow> enum_ok v s"
  by (auto simp: checkEnum_def enum_ok_def containsString_def list_ex_iff split: goval.splits)

lemma validateNumberBounds_None:
  "numberValue v = Some x \<Longrightarrow> validateNumberBounds t path v s = None \<longleftrightarrow> in_bounds s x"
  by (auto simp: validateNumberBounds_def in_bounds_def then_check_None split: option.splits)

lemma isInteger_number: "isInteger v \<Longrightarrow> \<exists>x. numberValue v = Some x"
  by (cases v) (auto simp: isInteger_def numberValue_def)

lemma enumerate_set: "(\<forall>(i, v) \<in> set (enumerate n vs). P v) \<longleftrightarrow> (\<forall>v \<in> set vs. P v)"
  by (induction vs arbitrary: n) auto

lemma conforms_enum: "conforms v s \<Longrightarrow> enum_ok v s"
  by (erule conforms.cases) simp_all

text \<open>What conforming means once the type is known.\<close>

lemma conforms_typed:
  assumes "enum_ok v s"
  shows
    "Type s \<in> {'''', ''any''} \<Longrightarrow> conforms v s"
    "Type s = ''string'' \<Longrightarrow> conforms v s \<longleftrightarrow> (\<exists>x. v = VStr x)"
    "Type s = ''integer'' \<Longrightarrow> conforms v s \<longleftrightarrow> isInteger v \<and> (\<exists>x. numberValue v = Some x \<and> in_bounds s x)"
    "Type s = ''number'' \<Longrightarrow> conforms v s \<longleftrightarrow> (\<exists>x. numberValue v = Some x \<and> in_bounds s x)"
    "Type s = ''boolean'' \<Longrightarrow> conforms v s \<longleftrightarrow> (\<exists>b. v = VBool b)"
    "Type s = ''object'' \<Longrightarrow> conforms v s \<longleftrightarrow> (\<exists>obj. v = VObj obj \<and> conforms_args obj s)"
    "Type s = ''array'' \<Longrightarrow> conforms v s \<longleftrightarrow>
       (\<exists>vs. v = VArr vs \<and> (\<forall>w \<in> set vs. \<forall>i. Items s = Some i \<longrightarrow> conforms w i))"
    "Type s \<notin> {'''', ''any'', ''string'', ''integer'', ''number'', ''boolean'', ''object'', ''array''} \<Longrightarrow>
       \<not> conforms v s"
  using assms by (subst conforms_iff, simp; blast)+

lemma validate_conforms:
  "validateObject t path obj s = None \<longleftrightarrow> conforms_args obj s"
  "validateJSONValue t path v s = None \<longleftrightarrow> conforms v s"
proof (induction t path obj s and t path v s rule: validateObject_validateJSONValue.induct)
  case (1 t path obj s)
  have "validateObject t path obj s = None \<longleftrightarrow>
     (\<forall>k \<in> set (Required s). map_of obj k \<noteq> None) \<and>
     (\<forall>k \<in> fst ` set obj. case property_of s k of
        None \<Rightarrow> AdditionalProperties s \<noteq> Some False
      | Some p \<Rightarrow> (case map_of obj k of Some v \<Rightarrow> conforms v p | None \<Rightarrow> True))"
    using 1 by (subst validateObject.simps)
      (auto simp: go_loop split: option.splits if_splits)
  also have "\<dots> \<longleftrightarrow> conforms_args obj s"
    unfolding conforms_args_iff dom_map_of_conv_image_fst [symmetric]
    by (fastforce simp: dom_def split: option.splits)
  finally show ?case .
next
  case (2 t path v s)
  have arr: "first_error (\<lambda>(i, v). validateJSONValue t (path @ ''['' @ nat_dec i @ '']'') v items) (enumerate 0 vs) = None
      \<longleftrightarrow> (\<forall>v \<in> set vs. conforms v items)"
    if "v = VArr vs" "Items s = Some items" "Type s = ''array''" for vs items
  proof -
    have "first_error (\<lambda>(i, v). validateJSONValue t (path @ ''['' @ nat_dec i @ '']'') v items) (enumerate 0 vs) = None
      \<longleftrightarrow> (\<forall>(i, v) \<in> set (enumerate 0 vs). conforms v items)"
      using 2(2) that by (fastforce simp: first_error_None)
    then show ?thesis by (simp add: enumerate_set)
  qed
  have obj: "validateObject t path obj s = None \<longleftrightarrow> conforms_args obj s"
    if "v = VObj obj" "Type s = ''object''" for obj
    using 2(1) that by simp
  note start = validateJSONValue.simps [of t path v s] then_check_None checkEnum_None
  show ?case
  proof (cases "enum_ok v s")
    case False
    then show ?thesis
      using conforms_enum [of v s] by (subst validateJSONValue.simps) (simp only: then_check_None checkEnum_None, blast)
  next
    case True
    consider "Type s \<in> {'''', ''any''}" | "Type s = ''string''" | "Type s = ''integer''"
      | "Type s = ''number''" | "Type s = ''boolean''" | "Type s = ''object''" | "Type s = ''array''"
      | "Type s \<notin> {'''', ''any'', ''string'', ''integer'', ''number'', ''boolean'', ''object'', ''array''}"
      by blast
    then show ?thesis
    proof cases
      case 1
      then show ?thesis using conforms_typed(1) [OF True] True unfolding start by auto
    next
      case 2
      then show ?thesis using True unfolding start conforms_typed(2) [OF True 2] by (auto split: goval.splits)
    next
      case 3
      then show ?thesis
        using True isInteger_number [of v] unfolding start conforms_typed(3) [OF True 3]
        by (auto simp: validateNumberBounds_None)
    next
      case 4
      then show ?thesis
        using True unfolding start conforms_typed(4) [OF True 4]
        by (auto simp: isNumber_def validateNumberBounds_None)
    next
      case 5
      then show ?thesis using True unfolding start conforms_typed(5) [OF True 5] by (auto split: goval.splits)
    next
      case 6
      then show ?thesis
        using True obj unfolding start conforms_typed(6) [OF True 6] by (auto split: goval.splits)
    next
      case 7
      then show ?thesis
        using True arr unfolding start conforms_typed(7) [OF True 7]
        by (auto split: goval.splits option.splits)
    next
      case 8
      then show ?thesis using True conforms_typed(8) [OF True 8] unfolding start by auto
    qed
  qed
qed

section \<open>Iteration order\<close>

text \<open>The same Go value, whatever order its maps list their entries in.\<close>

inductive same :: "goval \<Rightarrow> goval \<Rightarrow> bool" where
  refl: "same v v"
| arr: "list_all2 same vs ws \<Longrightarrow> same (VArr vs) (VArr ws)"
| obj: "distinct (map fst vs) \<Longrightarrow> distinct (map fst ws) \<Longrightarrow> dom (map_of vs) = dom (map_of ws) \<Longrightarrow>
     (\<And>k v w. map_of vs k = Some v \<Longrightarrow> map_of ws k = Some w \<Longrightarrow> same v w) \<Longrightarrow>
     same (VObj vs) (VObj ws)"

inductive_cases same_ObjE: "same (VObj vs) w"

lemma sorted_keys:
  assumes "distinct (map fst vs)" "distinct (map fst ws)" "dom (map_of vs) = dom (map_of ws)"
  shows "sort (map fst vs) = sort (map fst ws)"
proof -
  have "set (map fst vs) = set (map fst ws)" using assms(3) by (simp add: dom_map_of_conv_image_fst)
  with assms(1,2) have "mset (map fst vs) = mset (map fst ws)" by (metis set_eq_iff_mset_eq_distinct)
  then show ?thesis by (metis properties_for_sort sorted_sort mset_sort)
qed

lemma validateObject_same:
  assumes keys: "distinct (map fst vs)" "distinct (map fst ws)" "dom (map_of vs) = dom (map_of ws)"
    and vals: "\<And>k v w p s. map_of vs k = Some v \<Longrightarrow> map_of ws k = Some w \<Longrightarrow>
       validateJSONValue t p v s = validateJSONValue t p w s"
  shows "validateObject t path vs s = validateObject t path ws s"
proof -
  have none: "map_of vs k = None \<longleftrightarrow> map_of ws k = None" for k
    using keys(3) by (metis domIff)
  have "(case map_of vs k of Some v \<Rightarrow> validateJSONValue t p v q | None \<Rightarrow> None)
      = (case map_of ws k of Some w \<Rightarrow> validateJSONValue t p w q | None \<Rightarrow> None)" for k p q
  proof (cases "map_of vs k")
    case None
    then show ?thesis using none [of k] by simp
  next
    case (Some v)
    then obtain w where "map_of ws k = Some w" using none [of k] by (cases "map_of ws k") simp_all
    with Some vals show ?thesis by simp
  qed
  then show ?thesis
    unfolding validateObject.simps [of t path vs] validateObject.simps [of t path ws]
    by (simp only: sorted_keys [OF keys] none)
qed

lemma first_error_enumerate:
  "list_all2 (\<lambda>v w. \<forall>i. f (i, v) = f (i, w)) vs ws \<Longrightarrow>
     first_error f (enumerate n vs) = first_error f (enumerate n ws)"
  by (induction vs ws arbitrary: n rule: list_all2_induct) (auto split: option.splits)

lemma same_isNumber: "same v w \<Longrightarrow> numberValue v = numberValue w \<and> isInteger v = isInteger w"
  by (erule same.cases) (simp_all add: numberValue_def isInteger_def)

lemma validate_same: "same v w \<Longrightarrow> validateJSONValue t path v s = validateJSONValue t path w s"
proof (induction arbitrary: path s rule: same.induct)
  case (refl v)
  show ?case ..
next
  case (arr vs ws)
  have "first_error (\<lambda>(i, v). validateJSONValue t (path @ ''['' @ nat_dec i @ '']'') v items) (enumerate 0 vs)
      = first_error (\<lambda>(i, v). validateJSONValue t (path @ ''['' @ nat_dec i @ '']'') v items) (enumerate 0 ws)"
    for items
    using arr by (intro first_error_enumerate) (auto elim: list_all2_mono)
  then show ?case
    unfolding validateJSONValue.simps [of t path "VArr _"]
    by (simp add: checkEnum_def isInteger_def isNumber_def numberValue_def split: option.splits)
next
  case (obj vs ws)
  have "validateObject t path vs s = validateObject t path ws s"
    using obj by (intro validateObject_same) auto
  then show ?case
    unfolding validateJSONValue.simps [of t path "VObj _"]
    by (simp add: checkEnum_def isInteger_def isNumber_def numberValue_def)
qed

section \<open>The registry\<close>

text \<open>The states a guardrail goes through: created, then one registration or probe at a time.\<close>

inductive guard_state :: "unicode \<Rightarrow> SecurityConfig \<Rightarrow> Paldron \<Rightarrow> bool" for U c where
  new: "guard_state U c (New c)"
| register: "guard_state U c g \<Longrightarrow> ascii_types sch \<Longrightarrow> guard_state U c (RegisterJSONSchema U name sch g)"
| probe: "guard_state U c g \<Longrightarrow> guard_state U c (SetIsolatedExecutionAvailable b g)"

lemma guard_state_inv:
  "guard_state U c g \<Longrightarrow> cfg g = c \<and> (\<forall>name sch. schemas g name = Some sch \<longrightarrow> canonical U sch)"
  by (induction rule: guard_state.induct)
    (auto simp: New_def RegisterJSONSchema_def SetIsolatedExecutionAvailable_def Canonical_canonical)

section \<open>Properties\<close>

text \<open>The patterns no string argument may hold once it is trimmed and in lower case.\<close>

definition harmless :: "unicode \<Rightarrow> string list \<Rightarrow> string \<Rightarrow> bool" where
  "harmless U blocked s \<longleftrightarrow>
     (\<forall>pat \<in> set (map (ToLower U) blocked @ [''../'', ''~/.ssh'', ''/etc/'']).
        \<not> sublist pat (ToLower U (TrimSpace s)))"

lemma check_patterns_None:
  "check_patterns U blocked (k, v) = None \<longleftrightarrow> (\<forall>s. v = VStr s \<longrightarrow> harmless U blocked s)"
  by (cases v) (auto simp: check_patterns_def harmless_def Let_def go_loop split: if_splits)

lemma Check_None:
  "Check U g (Some call) = None \<longleftrightarrow>
     checkNetworkPolicy U g call = None \<and>
     (EnableGuardrails (cfg g) \<longrightarrow>
        (\<forall>sch. schemas g (ToolName call) = Some sch \<longrightarrow> conforms_args (Args call) (Canonical U sch)) \<and>
        (\<forall>(k, v) \<in> set (Args call). \<forall>s. v = VStr s \<longrightarrow> harmless U (BlockedCommands (cfg g)) s) \<and>
        validateToolSemantics call = None)"
proof -
  have loop: "first_error (check_patterns U (BlockedCommands (cfg g))) (Args call) = None \<longleftrightarrow>
      (\<forall>(k, v) \<in> set (Args call). \<forall>s. v = VStr s \<longrightarrow> harmless U (BlockedCommands (cfg g)) s)"
    unfolding first_error_None by (rule ball_cong) (auto simp: check_patterns_None)
  show ?thesis
    unfolding Check_def option.case then_check_None
    using loop by (auto simp: then_check_None validateSchema_def validate_conforms split: option.splits)
qed

text \<open>
  Property C12: the validator accepts exactly the argument objects that conform to the schema as
  the rules of \<open>conforms\<close> say, at every depth.
\<close>
theorem validateObject_decides:
  "validateObject toolName path obj sch = None \<longleftrightarrow> conforms_args obj sch"
  by (rule validate_conforms)

text \<open>
  Property C23: the result of validating a value, the error message included, does not depend on
  the order in which any map inside it is iterated.
\<close>
theorem validate_order_independent:
  assumes "same v w"
  shows "validateJSONValue toolName path v sch = validateJSONValue toolName path w sch"
  using assms by (rule validate_same)

theorem validate_order_independent_witness:
  "validateJSONValue ''t'' '''' (VObj [(''a'', VNil), (''b'', VBool True)]) zero_schema
   = validateJSONValue ''t'' '''' (VObj [(''b'', VBool True), (''a'', VNil)]) zero_schema"
proof (rule validate_order_independent, rule same.obj)
  show "dom (map_of [(''a'', VNil), (''b'', VBool True)]) = dom (map_of [(''b'', VBool True), (''a'', VNil)])"
    by auto
  fix k v w
  assume "map_of [(''a'', VNil), (''b'', VBool True)] k = Some v"
    "map_of [(''b'', VBool True), (''a'', VNil)] k = Some w"
  then show "same v w" by (auto split: if_splits intro: same.refl)
qed simp_all

text \<open>
  Property C13: in every state the guardrail can reach by registering schemas with ASCII type
  names, a call passes exactly when the network policy admits it and, with the guardrails on,
  its arguments conform to the schema registered for the tool, no string argument holds a
  blocked or suspicious pattern, and the rules of the tool are met.
\<close>
theorem Check_accepts_iff:
  assumes "guard_state U c g"
  shows "Check U g (Some call) = None \<longleftrightarrow>
     checkNetworkPolicy U g call = None \<and>
     (EnableGuardrails c \<longrightarrow>
        (\<forall>sch. schemas g (ToolName call) = Some sch \<longrightarrow> conforms_args (Args call) sch) \<and>
        (\<forall>(k, v) \<in> set (Args call). \<forall>s. v = VStr s \<longrightarrow> harmless U (BlockedCommands c) s) \<and>
        validateToolSemantics call = None)"
proof -
  have "Canonical U sch = sch" if "schemas g name = Some sch" for name sch
    using guard_state_inv [OF assms] that canon.form_fixed by blast
  then have sch: "(\<forall>sch. schemas g (ToolName call) = Some sch \<longrightarrow> conforms_args (Args call) (Canonical U sch))
      \<longleftrightarrow> (\<forall>sch. schemas g (ToolName call) = Some sch \<longrightarrow> conforms_args (Args call) sch)" by auto
  have "cfg g = c" using guard_state_inv [OF assms] by blast
  then show ?thesis unfolding Check_None sch by simp
qed

theorem Check_accepts_iff_witness:
  "Check ascii_only (New \<lparr>EnableGuardrails = True, BlockedCommands = [], NetworkAllowed = False\<rparr>)
     (Some \<lparr>ToolName = ''read_file'', Args = [(''path'', VStr ''notes.txt'')]\<rparr>) \<noteq> None"
proof -
  have "validateToolSemantics \<lparr>ToolName = ''read_file'', Args = [(''path'', VStr ''notes.txt'')]\<rparr>
      = Some (NeedsAbsolutePath ''read_file'')"
    by (simp add: validateToolSemantics_def string_arg_def Let_def IsAbs_def [of "''notes.txt''"])
  then show ?thesis
    using Check_accepts_iff [OF guard_state.new
      [of ascii_only "\<lparr>EnableGuardrails = True, BlockedCommands = [], NetworkAllowed = False\<rparr>"],
      of "\<lparr>ToolName = ''read_file'', Args = [(''path'', VStr ''notes.txt'')]\<rparr>"] by simp
qed

text \<open>
  Property C22: the network check passes exactly for the tools the guardrail exposes, a Git push
  apart; a call of a tool that is not exposed is refused even with the guardrails off.
\<close>
theorem network_boundary:
  "(checkNetworkPolicy U g call = None \<longleftrightarrow>
      ToolAvailable g (ToolName call) \<and>
      (NetworkAllowed (cfg g) \<or> ToolName call \<noteq> ''git_ops'' \<or>
       \<not> EqualFold U (TrimSpace (string_arg call ''action'')) ''push'')) \<and>
   (\<not> ToolAvailable g (ToolName call) \<longrightarrow> Check U g (Some call) \<noteq> None)"
proof -
  have "''execute_code'' \<notin> set network_tools" "''git_ops'' \<notin> set network_tools"
    by (simp_all add: network_tools_def)
  then have "checkNetworkPolicy U g call = None \<longleftrightarrow>
      ToolAvailable g (ToolName call) \<and>
      (NetworkAllowed (cfg g) \<or> ToolName call \<noteq> ''git_ops'' \<or>
       \<not> EqualFold U (TrimSpace (string_arg call ''action'')) ''push'')"
    unfolding checkNetworkPolicy_def ToolAvailable_def
    by (cases "ToolName call = ''git_ops''"; cases "ToolName call = ''execute_code''") simp_all
  then show ?thesis unfolding Check_None by blast
qed

theorem network_boundary_witness:
  "Check ascii_only (New \<lparr>EnableGuardrails = False, BlockedCommands = [], NetworkAllowed = False\<rparr>)
     (Some \<lparr>ToolName = ''execute_code'', Args = []\<rparr>) \<noteq> None"
  using network_boundary [of ascii_only
      "New \<lparr>EnableGuardrails = False, BlockedCommands = [], NetworkAllowed = False\<rparr>"
      "\<lparr>ToolName = ''execute_code'', Args = []\<rparr>"]
  by (simp add: ToolAvailable_def New_def hasIsolatedExecution_def)

text \<open>
  A tool registered in the legacy format with an argument called \<^verbatim>\<open>type\<close> is not
  validated: whatever its other arguments are described as, the schema check admits every call.
\<close>
theorem legacy_type_unvalidated:
  assumes "TrimSpace source \<noteq> ''''" "json_parse L (TrimSpace source) = Some (JObj ((''type'', JStr d) # kvs))"
    and "\<forall>(k, v) \<in> set kvs. find (EqualFold U k) schema_fields = None"
    and "ascii d" "canonical_type U d \<noteq> ''object''"
  shows "\<exists>sch. schemas (RegisterSchema L U name source g) name = Some sch \<and>
     (\<forall>call. validateSchema U call sch = None)"
proof -
  let ?s = "JSONSchema (canonical_type U d) '''' None [] None [] None None None"
  have can: "Canonical U ?s = ?s"
    using assms(4,5) by (simp add: Canonical_fixed canonical_type_idem)
  have "validateSchema U call ?s = None" for call
    unfolding validateSchema_def can validate_conforms conforms_args_iff by (simp add: property_of_def)
  moreover have "schemas (RegisterSchema L U name source g) name = Some ?s"
    unfolding RegisterSchema_def RegisterJSONSchema_def legacy_type_schema [OF assms(1,2,3,5)] can by simp
  ultimately show ?thesis by blast
qed

theorem legacy_type_unvalidated_witness:
  "\<exists>sch. schemas (RegisterSchema
      \<lparr>json_parse = \<lambda>_. Some (JObj [(''type'', JStr ''kind''), (''path'', JStr ''string'')]),
       json_float = \<lambda>_. None\<rparr> ascii_only ''mk'' ''{}''
      (New \<lparr>EnableGuardrails = True, BlockedCommands = [], NetworkAllowed = False\<rparr>)) ''mk'' = Some sch \<and>
     (\<forall>call. validateSchema ascii_only call sch = None)"
proof -
  have t: "TrimSpace ''{}'' = ''{}''" "TrimSpace ''kind'' = ''kind''"
    by (rule trimmed_TrimSpace, rule graphic_trimmed, simp add: graphic_def)+
  show ?thesis
  proof (rule legacy_type_unvalidated)
    show "canonical_type ascii_only ''kind'' \<noteq> ''object''"
      by (simp add: canonical_type_def t ToLower_ascii_map lower_byte_def)
    show "\<forall>(k, v) \<in> set [(''path'', JStr ''string'')]. find (EqualFold ascii_only k) schema_fields = None"
      by (simp add: schema_fields_def EqualFold_def runes_ascii fold_eq_def)
  qed (simp_all add: t)
qed

end
