(* ===== verification/Output.thy ===== *)
theory Output
  imports Go_Strings
begin

text \<open>
  The output side of \<^verbatim>\<open>internal/sandbox/sandbox.go\<close>: \<open>boundedBuffer\<close>, the writer that keeps a
  prefix of what a child process writes, and \<open>ExecuteResult\<close> with its rendering.
  The contract of the writer is a locale; what it gives for a whole run of writes is proved there.
\<close>

section \<open>The interface of a capped writer\<close>

locale capped_writer =
  fixes put :: "string \<Rightarrow> 's \<Rightarrow> nat \<times> 's"
    and contents :: "'s \<Rightarrow> string"
    and cut :: "'s \<Rightarrow> bool"
    and cap :: "'s \<Rightarrow> nat"
    and fits :: "'s \<Rightarrow> bool"
  assumes takes_all: "fst (put p s) = length p"
    and cap_kept: "cap (snd (put p s)) = cap s"
    and fits_kept: "fits s \<Longrightarrow> fits (snd (put p s))"
    and fits_cap: "fits s \<Longrightarrow> length (contents s) \<le> cap s"
    and contents_write: "fits s \<Longrightarrow> contents (snd (put p s)) = take (cap s) (contents s @ p)"
    and cut_write: "fits s \<Longrightarrow> cut (snd (put p s)) \<longleftrightarrow> cut s \<or> cap s < length (contents s @ p)"
begin

definition writes :: "string list \<Rightarrow> 's \<Rightarrow> 's" where
  "writes ps s = fold (\<lambda>p s. snd (put p s)) ps s"

lemma writes_simps: "writes [] s = s" "writes (p # ps) s = writes ps (snd (put p s))"
  by (simp_all add: writes_def)

lemma writes_cap: "cap (writes ps s) = cap s"
  by (induction ps arbitrary: s) (simp_all add: writes_simps cap_kept)

lemma writes_fits: "fits s \<Longrightarrow> fits (writes ps s)"
  by (induction ps arbitrary: s) (simp_all add: writes_simps fits_kept)

lemma writes_contents: "fits s \<Longrightarrow> contents (writes ps s) = take (cap s) (contents s @ concat ps)"
proof (induction ps arbitrary: s)
  case Nil
  then show ?case using fits_cap [of s] by (simp add: writes_simps)
next
  case (Cons p ps)
  have "length (contents s) \<le> cap s" by (rule fits_cap [OF Cons.prems])
  with Cons show ?case by (simp add: writes_simps fits_kept cap_kept contents_write min_def)
qed

lemma writes_cut: "fits s \<Longrightarrow> cut (writes ps s) \<longleftrightarrow> cut s \<or> cap s < length (contents s @ concat ps)"
proof (induction ps arbitrary: s)
  case Nil
  then show ?case using fits_cap [of s] by (auto simp: writes_simps)
next
  case (Cons p ps)
  then show ?case using fits_cap [OF Cons.prems]
    by (auto simp: writes_simps fits_kept cap_kept contents_write cut_write min_def split: if_splits)
qed

end

section \<open>The bounded buffer\<close>

record boundedBuffer =
  buf :: string
  limit :: i64
  truncated :: bool

definition newBoundedBuffer :: "i64 \<Rightarrow> boundedBuffer" where
  "newBoundedBuffer l = \<lparr>buf = '''', limit = l, truncated = False\<rparr>"

text \<open>
  \<^verbatim>\<open>b.limit - b.buf.Len()\<close> does not wrap: the length is between zero and a non-negative limit,
  or zero. It is read as an integer here.
\<close>

definition Write :: "string \<Rightarrow> boundedBuffer \<Rightarrow> nat \<times> boundedBuffer" where
  "Write p b =
     (let written = length p; remaining = sint (limit b) - int (length (buf b)) in
      (written,
       if 0 < remaining then
         (if remaining < int (length p)
          then b\<lparr>buf := buf b @ take (nat remaining) p, truncated := True\<rparr>
          else b\<lparr>buf := buf b @ p\<rparr>)
       else if 0 < length p then b\<lparr>truncated := True\<rparr>
       else b))"

definition buffer_String :: "boundedBuffer \<Rightarrow> string" where
  "buffer_String b =
     (if truncated b
      then buf b @ [CHR 0x0A, CHR 0x0A] @ ''[TRUNCATED: output exceeded '' @ int_dec (sint (limit b)) @ '' bytes]''
      else buf b)"

definition Len :: "boundedBuffer \<Rightarrow> nat" where
  "Len b = length (buf b)"

definition buffer_cap :: "boundedBuffer \<Rightarrow> nat" where
  "buffer_cap b = nat (sint (limit b))"

definition buffer_fits :: "boundedBuffer \<Rightarrow> bool" where
  "buffer_fits b \<longleftrightarrow> length (buf b) \<le> buffer_cap b"

interpretation buffer: capped_writer Write buf truncated buffer_cap buffer_fits
proof unfold_locales
  fix p :: string and b :: boundedBuffer
  show "fst (Write p b) = length p" by (simp add: Write_def Let_def)
  show "buffer_cap (snd (Write p b)) = buffer_cap b" by (simp add: Write_def Let_def buffer_cap_def)
  show "length (buf b) \<le> buffer_cap b" if "buffer_fits b" using that by (simp add: buffer_fits_def)
  show "buffer_fits (snd (Write p b))" if "buffer_fits b"
    using that by (auto simp: Write_def Let_def buffer_cap_def buffer_fits_def nat_diff_distrib)
  show "buf (snd (Write p b)) = take (buffer_cap b) (buf b @ p)" if "buffer_fits b"
    using that by (auto simp: Write_def Let_def buffer_cap_def buffer_fits_def nat_diff_distrib)
  show "truncated (snd (Write p b)) \<longleftrightarrow> truncated b \<or> buffer_cap b < length (buf b @ p)" if "buffer_fits b"
    using that by (cases p)
      (auto simp: Write_def Let_def buffer_cap_def buffer_fits_def nat_less_iff)
qed

text \<open>A new buffer after a child process wrote these pieces into it.\<close>

definition capture :: "i64 \<Rightarrow> string list \<Rightarrow> boundedBuffer" where
  "capture l ps = fold (\<lambda>p b. snd (Write p b)) ps (newBoundedBuffer l)"

section \<open>Results\<close>

record ExecuteResult =
  Stdout :: string
  Stderr :: string
  ExitCode :: i64
  TimedOut :: bool
  Error :: string

definition result_String :: "ExecuteResult \<Rightarrow> string" where
  "result_String r =
     (if Error r \<noteq> '''' then ''[SANDBOX ERROR] '' @ Error r @ [CHR 0x0A]
      else
        (if TimedOut r then ''[TIMEOUT] Command killed after exceeding time limit'' @ [CHR 0x0A] else '''') @
        (if Stdout r \<noteq> '''' then ''[STDOUT]'' @ [CHR 0x0A] @ Stdout r @ [CHR 0x0A] else '''') @
        (if Stderr r \<noteq> '''' then ''[STDERR]'' @ [CHR 0x0A] @ Stderr r @ [CHR 0x0A] else '''') @
        (if ExitCode r = 0 \<and> \<not> TimedOut r then ''[EXIT CODE] 0 (success)'' @ [CHR 0x0A]
         else ''[EXIT CODE] '' @ int_dec (sint (ExitCode r)) @ [CHR 0x0A]))"

text \<open>A decimal numeral consists of digits, and is not empty.\<close>

lemma int_dec_last: "int_dec i \<noteq> '''' \<and> 48 \<le> byte (last (int_dec i)) \<and> byte (last (int_dec i)) \<le> 57"
proof -
  have "48 \<le> byte (last (nat_dec n)) \<and> byte (last (nat_dec n)) \<le> 57" for n
    using nat_dec_digits [of n] last_in_set by blast
  then show ?thesis using nat_dec_digits by (auto simp: int_dec_def)
qed

section \<open>Properties\<close>

text \<open>
  Property C26: whatever pieces a process writes its output in, every write is accepted in full,
  the buffer holds the first \<open>limit\<close> bytes of the whole, and it is marked as truncated exactly
  when there were more.
\<close>
theorem bounded_output:
  "fst (Write p b) = length p \<and>
   buf (capture l ps) = take (nat (sint l)) (concat ps) \<and>
   (truncated (capture l ps) \<longleftrightarrow> nat (sint l) < length (concat ps)) \<and>
   Len (capture l ps) \<le> nat (sint l)"
proof -
  let ?b = "newBoundedBuffer l"
  have b: "buffer_fits ?b" "buffer_cap ?b = nat (sint l)" "buf ?b = ''''" "\<not> truncated ?b"
    by (simp_all add: newBoundedBuffer_def buffer_fits_def buffer_cap_def)
  have run: "capture l ps = buffer.writes ps ?b" by (simp add: capture_def buffer.writes_def)
  show ?thesis unfolding run Len_def
    using b buffer.takes_all buffer.writes_contents [OF b(1), of ps] buffer.writes_cut [OF b(1), of ps]
    by simp
qed

text \<open>
  The last line of a rendered result without an error announces success exactly
  when the exit code is zero and the command did not time out, whatever the command wrote.
\<close>
theorem result_success_line:
  assumes "Error r = ''''"
  shows "HasSuffix (result_String r) (''[EXIT CODE] 0 (success)'' @ [CHR 0x0A]) \<longleftrightarrow>
     ExitCode r = 0 \<and> \<not> TimedOut r"
proof (cases "ExitCode r = 0 \<and> \<not> TimedOut r")
  case True
  then show ?thesis using assms by (auto simp: result_String_def suffix_def)
next
  case False
  let ?d = "int_dec (sint (ExitCode r))"
  obtain front where "result_String r = front @ ?d @ [CHR 0x0A]"
    using assms False by (simp add: result_String_def)
  moreover have "?d = butlast ?d @ [last ?d]" using int_dec_last by simp
  ultimately have r: "result_String r = (front @ butlast ?d) @ [last ?d, CHR 0x0A]" by (metis append.assoc append_Cons append_Nil)
  have "last ?d \<noteq> CHR '')''" using int_dec_last [of "sint (ExitCode r)"] by auto
  then have "\<not> HasSuffix (result_String r) (''[EXIT CODE] 0 (success)'' @ [CHR 0x0A])"
    unfolding r by (auto simp: suffix_def)
  with False show ?thesis by blast
qed

theorem result_success_line_witness:
  "HasSuffix (result_String \<lparr>Stdout = ''ok'', Stderr = '''', ExitCode = 0, TimedOut = False, Error = ''''\<rparr>)
     (''[EXIT CODE] 0 (success)'' @ [CHR 0x0A])"
  using result_success_line [of "\<lparr>Stdout = ''ok'', Stderr = '''', ExitCode = 0, TimedOut = False, Error = ''''\<rparr>"]
  by simp

end
