(* ===== verification/Helper.thy ===== *)
theory Helper
  imports Go_Strings
begin

text \<open>
  \<^verbatim>\<open>internal/sandbox/isolation.go\<close>: the isolation request, and the protocol by which the parent
  process hands it to the restricted helper: JSON, then base64, in the last of three arguments.
  The base64 coding of the Go library is modelled. The JSON coding of the request is an argument;
  \<open>coerce_request\<close> is what \<^verbatim>\<open>encoding/json\<close> documents of a request that is coded and decoded.
\<close>

section \<open>Unpadded base64 with the URL alphabet\<close>

fun sextets :: "nat list \<Rightarrow> nat list" where
  "sextets [] = []"
| "sextets [a] = [a div 4, a mod 4 * 16]"
| "sextets [a, b] = [a div 4, a mod 4 * 16 + b div 16, b mod 16 * 4]"
| "sextets (a # b # c # bs) =
     a div 4 # (a mod 4 * 16 + b div 16) # (b mod 16 * 4 + c div 64) # c mod 64 # sextets bs"

fun octets :: "nat list \<Rightarrow> nat list option" where
  "octets [] = Some []"
| "octets [x] = None"
| "octets [x, y] = Some [x * 4 + y div 16]"
| "octets [x, y, z] = Some [x * 4 + y div 16, y mod 16 * 16 + z div 4]"
| "octets (x # y # z # w # ss) =
     map_option (\<lambda>bs. (x * 4 + y div 16) # (y mod 16 * 16 + z div 4) # (z mod 4 * 64 + w) # bs) (octets ss)"

definition sextet_char :: "nat \<Rightarrow> char" where
  "sextet_char n =
     (if n < 26 then char_of (65 + n) else if n < 52 then char_of (71 + n)
      else if n < 62 then char_of (n - 4) else if n = 62 then CHR ''-'' else CHR ''_'')"

definition char_sextet :: "char \<Rightarrow> nat option" where
  "char_sextet c =
     (let b = byte c in
      if 65 \<le> b \<and> b \<le> 90 then Some (b - 65) else if 97 \<le> b \<and> b \<le> 122 then Some (b - 71)
      else if 48 \<le> b \<and> b \<le> 57 then Some (b + 4) else if c = CHR ''-'' then Some 62
      else if c = CHR ''_'' then Some 63 else None)"

definition EncodeToString :: "string \<Rightarrow> string" where
  "EncodeToString s = map sextet_char (sextets (map byte s))"

fun all_some :: "'a option list \<Rightarrow> 'a list option" where
  "all_some [] = Some []"
| "all_some (x # xs) = (case x of None \<Rightarrow> None | Some a \<Rightarrow> map_option (Cons a) (all_some xs))"

text \<open>Decoding skips line breaks and does not look at the bits left over in the last sextet.\<close>

definition DecodeString :: "string \<Rightarrow> string option" where
  "DecodeString s =
     (case all_some (map char_sextet (filter (\<lambda>c. byte c \<noteq> 10 \<and> byte c \<noteq> 13) s)) of
        None \<Rightarrow> None
      | Some ss \<Rightarrow> map_option (map char_of) (octets ss))"

lemma sextets_less: "(\<forall>b \<in> set bs. b < 256) \<Longrightarrow> (\<forall>x \<in> set (sextets bs). x < 64)"
  by (induction bs rule: sextets.induct) auto

lemma byte_less: "byte c < 256"
  using of_char_mod_256 [of c] by (metis mod_less_divisor zero_less_numeral)

lemma octets_sextets: "(\<forall>b \<in> set bs. b < 256) \<Longrightarrow> octets (sextets bs) = Some bs"
proof (induction bs rule: sextets.induct)
  case (4 a b c bs)
  then have "b < 256" "c < 256" "octets (sextets bs) = Some bs" by auto
  moreover have "a div 4 * 4 + (a mod 4 * 16 + b div 16) div 16 = a"
    using \<open>b < 256\<close> by simp
  moreover have "(a mod 4 * 16 + b div 16) mod 16 * 16 + (b mod 16 * 4 + c div 64) div 4 = b"
    using \<open>b < 256\<close> \<open>c < 256\<close> by simp
  moreover have "(b mod 16 * 4 + c div 64) mod 4 * 64 + c mod 64 = c"
    using \<open>c < 256\<close> by simp
  ultimately show ?case by (simp only: sextets.simps octets.simps option.map)
qed auto

lemma sextet_char_byte:
  "n < 64 \<Longrightarrow> byte (sextet_char n) =
     (if n < 26 then 65 + n else if n < 52 then 71 + n else if n < 62 then n - 4
      else if n = 62 then 45 else 95)"
  by (simp add: sextet_char_def)

lemma char_sextet_char: "n < 64 \<Longrightarrow> char_sextet (sextet_char n) = Some n"
  by (auto simp: char_sextet_def Let_def sextet_char_byte) (auto simp: sextet_char_def split: if_splits)

lemma sextet_char_printable: "n < 64 \<Longrightarrow> byte (sextet_char n) \<noteq> 10 \<and> byte (sextet_char n) \<noteq> 13"
  by (auto simp: sextet_char_byte)

lemma all_some_map: "(\<And>x. x \<in> set xs \<Longrightarrow> f x = Some (g x)) \<Longrightarrow> all_some (map f xs) = Some (map g xs)"
  by (induction xs) auto

lemma Decode_Encode: "DecodeString (EncodeToString s) = Some s"
proof -
  let ?ss = "sextets (map byte s)"
  have bytes: "\<forall>b \<in> set (map byte s). b < 256" by (auto simp: byte_less)
  then have less: "\<forall>x \<in> set ?ss. x < 64" by (rule sextets_less)
  have "filter (\<lambda>c. byte c \<noteq> 10 \<and> byte c \<noteq> 13) (map sextet_char ?ss) = map sextet_char ?ss"
    using less by (simp add: filter_id_conv sextet_char_printable)
  moreover have "all_some (map char_sextet (map sextet_char ?ss)) = Some ?ss"
    using less all_some_map [of ?ss "char_sextet \<circ> sextet_char" id] by (simp add: char_sextet_char)
  ultimately show ?thesis
    using octets_sextets [OF bytes] by (simp add: DecodeString_def EncodeToString_def comp_def)
qed

section \<open>The request\<close>

definition sandboxHelperArgument :: string where
  "sandboxHelperArgument = ''__reeve_sandbox_exec''"

definition defaultSandboxCPUTimeSec :: i64 where "defaultSandboxCPUTimeSec = 60"
definition defaultSandboxMaxMemoryBytes :: i64 where
  "defaultSandboxMaxMemoryBytes = 8 * 1024 * 1024 * 1024"
definition defaultSandboxMaxProcesses :: i64 where "defaultSandboxMaxProcesses = 4096"
definition defaultSandboxMaxFileSize :: i64 where "defaultSandboxMaxFileSize = 1024 * 1024 * 1024"
definition defaultSandboxMaxOpenFiles :: i64 where "defaultSandboxMaxOpenFiles = 1024"

record isolationResourceLimits =
  CPUTimeSec_lim :: i64
  MaxMemoryBytes_lim :: i64
  MaxProcesses_lim :: i64
  MaxFileSizeBytes_lim :: i64
  MaxOpenFiles_lim :: i64

record isolationRequest =
  AllowedDirs_req :: "string list"
  ReadOnlyDirs_req :: "string list"
  WorkingDir_req :: string
  Command_req :: "string list"
  AllowNetwork_req :: bool
  ResourceLimits_req :: isolationResourceLimits

text \<open>
  Through JSON a request keeps everything but the bytes of its strings that are not UTF-8: each of
  these comes back as U+FFFD.
\<close>

definition coerce_request :: "isolationRequest \<Rightarrow> isolationRequest" where
  "coerce_request r =
     r\<lparr>AllowedDirs_req := map to_valid (AllowedDirs_req r), ReadOnlyDirs_req := map to_valid (ReadOnlyDirs_req r),
       WorkingDir_req := to_valid (WorkingDir_req r), Command_req := map to_valid (Command_req r)\<rparr>"

definition utf8_request :: "isolationRequest \<Rightarrow> bool" where
  "utf8_request r \<longleftrightarrow>
     list_all valid_utf8 (WorkingDir_req r # AllowedDirs_req r @ ReadOnlyDirs_req r @ Command_req r)"

lemma coerce_utf8: "utf8_request r \<Longrightarrow> coerce_request r = r"
  by (simp add: utf8_request_def coerce_request_def valid_utf8_def list_all_iff map_idI)

lemma coerce_request_simps [simp]:
  "AllowNetwork_req (coerce_request r) = AllowNetwork_req r"
  "ResourceLimits_req (coerce_request r) = ResourceLimits_req r"
  "Command_req (coerce_request r) = map to_valid (Command_req r)"
  "AllowedDirs_req (coerce_request r) = map to_valid (AllowedDirs_req r)"
  "ReadOnlyDirs_req (coerce_request r) = map to_valid (ReadOnlyDirs_req r)"
  "WorkingDir_req (coerce_request r) = to_valid (WorkingDir_req r)"
  "coerce_request (coerce_request r) = coerce_request r"
  by (simp_all add: coerce_request_def)

record request_json =
  marshal_request :: "isolationRequest \<Rightarrow> string option"
  unmarshal_request :: "string \<Rightarrow> isolationRequest option"

section \<open>The helper protocol\<close>

definition IsSandboxHelperInvocation :: "string list \<Rightarrow> bool" where
  "IsSandboxHelperInvocation args \<longleftrightarrow> length args = 3 \<and> args ! 1 = sandboxHelperArgument"

text \<open>
  \<open>run\<close> is the platform's \<^verbatim>\<open>runIsolated\<close>, \<open>fail\<close> what the helper does with an error.
\<close>

definition RunSandboxHelper ::
    "request_json \<Rightarrow> (string \<Rightarrow> 'r) \<Rightarrow> (isolationRequest \<Rightarrow> 'r) \<Rightarrow> string list \<Rightarrow> 'r"
where
  "RunSandboxHelper J fail run args =
     (if \<not> IsSandboxHelperInvocation args then fail ''invalid sandbox helper invocation''
      else
        (case DecodeString (args ! 2) of
           None \<Rightarrow> fail ''decode sandbox request''
         | Some payload \<Rightarrow>
             (case unmarshal_request J payload of
                None \<Rightarrow> fail ''parse sandbox request''
              | Some request \<Rightarrow>
                  if WorkingDir_req request = '''' \<or> length (Command_req request) = 0 \<or>
                     Command_req request ! 0 = ''''
                  then fail ''sandbox request is missing working_dir or command''
                  else run request)))"

text \<open>A command: the program and its arguments.\<close>

definition newIsolatedCommand ::
    "request_json \<Rightarrow> string \<Rightarrow> isolationRequest \<Rightarrow> (string, string \<times> string list) result"
where
  "newIsolatedCommand J helperPath request =
     (if helperPath = '''' then Inl ''OS isolation helper path is empty''
      else
        (case marshal_request J request of
           None \<Rightarrow> Inl ''encode sandbox request''
         | Some payload \<Rightarrow> Inr (helperPath, [sandboxHelperArgument, EncodeToString payload])))"

section \<open>What the helper makes of the parent's command\<close>

lemma helper_inverse:
  assumes "\<And>payload. marshal_request J request = Some payload \<Longrightarrow> unmarshal_request J payload = Some (coerce_request request)"
    and "newIsolatedCommand J helperPath request = Inr (prog, args)"
    and "WorkingDir_req request \<noteq> ''''" "Command_req request = c # cs" "c \<noteq> ''''"
  shows "IsSandboxHelperInvocation (prog # args) \<and>
     RunSandboxHelper J fail run (prog # args) = run (coerce_request request)"
proof -
  obtain payload where p: "marshal_request J request = Some payload" "args = [sandboxHelperArgument, EncodeToString payload]"
    using assms(2) by (auto simp: newIsolatedCommand_def split: if_splits option.splits)
  then show ?thesis
    using assms by (simp add: IsSandboxHelperInvocation_def RunSandboxHelper_def Decode_Encode)
qed

definition demo_request :: isolationRequest where
  "demo_request = \<lparr>AllowedDirs_req = [''/w''], ReadOnlyDirs_req = [], WorkingDir_req = ''/w'',
     Command_req = [''ls''], AllowNetwork_req = False,
     ResourceLimits_req = \<lparr>CPUTimeSec_lim = 1, MaxMemoryBytes_lim = 1, MaxProcesses_lim = 1,
       MaxFileSizeBytes_lim = 1, MaxOpenFiles_lim = 1\<rparr>\<rparr>"

end
