(* ===== verification/Request_Json.thy ===== *)
theory Request_Json
  imports Helper "HOL-Library.Monad_Syntax"
begin

text \<open>
  A JSON coding of isolation requests, with the members that the struct tags of
  \<^verbatim>\<open>internal/sandbox/isolation.go\<close> name: an encoder and a decoder of what it writes. It does what
  \<^verbatim>\<open>encoding/json\<close> documents for these types and instantiates the coding that the protocol takes
  as an argument. The property of the protocol is stated for every coding that does.
\<close>

section \<open>Strings\<close>

definition hex_char :: "nat \<Rightarrow> char" where
  "hex_char n = (if n < 10 then char_of (48 + n) else char_of (87 + n))"

definition char_hex :: "char \<Rightarrow> nat option" where
  "char_hex c =
     (let b = byte c in
      if 48 \<le> b \<and> b \<le> 57 then Some (b - 48) else if 97 \<le> b \<and> b \<le> 102 then Some (b - 87) else None)"

abbreviation json_quote :: char where "json_quote \<equiv> CHR 0x22"
abbreviation json_backslash :: char where "json_backslash \<equiv> CHR 0x5C"

definition json_escape :: "char \<Rightarrow> string" where
  "json_escape c =
     (if c = json_quote \<or> c = json_backslash \<or> byte c < 32
      then [json_backslash, CHR ''u'', CHR ''0'', CHR ''0'', hex_char (byte c div 16), hex_char (byte c mod 16)]
      else [c])"

definition json_string :: "string \<Rightarrow> string" where
  "json_string s = json_quote # concat (map json_escape (to_valid s)) @ [json_quote]"

text \<open>The characters of a string up to its closing quote, and what follows.\<close>

fun json_body :: "string \<Rightarrow> (string \<times> string) option" where
  "json_body (c # s) =
     (if c = json_quote then Some ([], s)
      else if c = json_backslash then
        (case s of
           u # y # z # a # b # t \<Rightarrow>
             if [u, y, z] = ''u00'' then
               do { m \<leftarrow> char_hex a; n \<leftarrow> char_hex b; (cs, t') \<leftarrow> json_body t;
                    Some (char_of (16 * m + n) # cs, t') }
             else None
         | _ \<Rightarrow> None)
      else do { (cs, t) \<leftarrow> json_body s; Some (c # cs, t) })"
| "json_body [] = None"

fun parse_string :: "string \<Rightarrow> (string \<times> string) option" where
  "parse_string (c # s) = (if c = json_quote then json_body s else None)"
| "parse_string [] = None"

lemma char_hex_char: "n < 16 \<Longrightarrow> char_hex (hex_char n) = Some n"
  by (simp add: char_hex_def hex_char_def Let_def)

lemma string_body_escape: "json_body (json_escape c @ s) = do { (cs, t) \<leftarrow> json_body s; Some (c # cs, t) }"
proof (cases "c = json_quote \<or> c = json_backslash \<or> byte c < 32")
  case True
  have "byte c div 16 < 16" using byte_less [of c] by (simp add: less_mult_imp_div_less)
  then have "char_hex (hex_char (byte c div 16)) = Some (byte c div 16)"
    "char_hex (hex_char (byte c mod 16)) = Some (byte c mod 16)"
    by (simp_all add: char_hex_char)
  moreover have "json_escape c = [json_backslash, CHR ''u'', CHR ''0'', CHR ''0'', hex_char (byte c div 16), hex_char (byte c mod 16)]"
    using True by (simp add: json_escape_def)
  ultimately show ?thesis by simp
next
  case False
  then show ?thesis by (simp add: json_escape_def)
qed

lemma string_body_escapes: "json_body (concat (map json_escape s) @ json_quote # t) = Some (s, t)"
  by (induction s) (simp_all add: string_body_escape)

lemma parse_json_string [simp]: "parse_string (json_string s @ t) = Some (to_valid s, t)"
  by (simp add: json_string_def string_body_escapes)

section \<open>Lists of strings\<close>

fun json_items :: "string list \<Rightarrow> string" where
  "json_items [] = '']''"
| "json_items [x] = json_string x @ '']''"
| "json_items (x # xs) = json_string x @ '','' @ json_items xs"

definition json_list :: "string list \<Rightarrow> string" where
  "json_list xs = CHR ''['' # json_items xs"

lemma string_body_shorter: "json_body s = Some (x, t) \<Longrightarrow> length t < length s"
  by (induction s arbitrary: x t rule: json_body.induct)
    (fastforce split: if_splits list.splits simp: bind_eq_Some_conv)+

lemma parse_string_shorter: "parse_string s = Some (x, t) \<Longrightarrow> length t < length s"
  by (cases s) (auto split: if_splits dest: string_body_shorter)

function parse_items :: "string \<Rightarrow> (string list \<times> string) option" where
  "parse_items s =
     (case parse_string s of
        Some (x, c # t) \<Rightarrow>
          if c = CHR '','' then do { (xs, u) \<leftarrow> parse_items t; Some (x # xs, u) }
          else if c = CHR '']'' then Some ([x], t) else None
      | _ \<Rightarrow> None)"
  by pat_completeness auto
termination
  by (relation "measure length") (auto dest: parse_string_shorter)

declare parse_items.simps [simp del]

fun parse_list :: "string \<Rightarrow> (string list \<times> string) option" where
  "parse_list (c # s) =
     (if c \<noteq> CHR ''['' then None
      else case s of d # t \<Rightarrow> if d = CHR '']'' then Some ([], t) else parse_items s | [] \<Rightarrow> None)"
| "parse_list [] = None"

lemma parse_json_items: "xs \<noteq> [] \<Longrightarrow> parse_items (json_items xs @ t) = Some (map to_valid xs, t)"
  by (induction xs rule: json_items.induct) (simp_all add: parse_items.simps)

lemma parse_json_list [simp]: "parse_list (json_list xs @ t) = Some (map to_valid xs, t)"
proof (cases xs)
  case (Cons x ys)
  obtain r where r: "json_items xs = json_quote # r" unfolding Cons by (cases ys) (simp_all add: json_string_def)
  have "parse_list (json_list xs @ t) = parse_items (json_items xs @ t)"
    by (simp add: json_list_def r)
  then show ?thesis using parse_json_items [of xs t] Cons by simp
qed (simp add: json_list_def)

section \<open>Numbers and members\<close>

definition json_digit :: "char \<Rightarrow> bool" where
  "json_digit c \<longleftrightarrow> 48 \<le> byte c \<and> byte c \<le> 57"

definition read_nat :: "string \<Rightarrow> nat" where
  "read_nat ds = foldl (\<lambda>n c. 10 * n + (byte c - 48)) 0 ds"

definition parse_nat :: "string \<Rightarrow> (nat \<times> string) option" where
  "parse_nat s =
     (if takeWhile json_digit s = [] then None else Some (read_nat (takeWhile json_digit s), dropWhile json_digit s))"

definition parse_i64 :: "string \<Rightarrow> (i64 \<times> string) option" where
  "parse_i64 s =
     (if HasPrefix s ''-''
      then map_option (\<lambda>(n, t). (word_of_int (- int n), t)) (parse_nat (tl s))
      else map_option (\<lambda>(n, t). (word_of_int (int n), t)) (parse_nat s))"

definition json_i64 :: "i64 \<Rightarrow> string" where
  "json_i64 w = int_dec (sint w)"

lemma json_nat_digits: "nat_dec n \<noteq> [] \<and> (\<forall>c \<in> set (nat_dec n). json_digit c)"
  using nat_dec_digits [of n] by (simp add: json_digit_def)

lemma read_nat_dec: "read_nat (nat_dec n) = n"
proof (induction n rule: nat_dec.induct)
  case (1 n)
  show ?case
  proof (cases "n < 10")
    case True
    then show ?thesis by (subst nat_dec.simps) (simp add: read_nat_def)
  next
    case False
    have "read_nat (nat_dec n) = 10 * read_nat (nat_dec (n div 10)) + n mod 10"
      using False by (subst nat_dec.simps) (simp add: read_nat_def)
    with 1 [OF False] show ?thesis by simp
  qed
qed

lemma parse_nat_dec: "\<not> json_digit c \<Longrightarrow> parse_nat (nat_dec n @ c # t) = Some (n, c # t)"
  using json_nat_digits [of n] by (simp add: parse_nat_def read_nat_dec takeWhile_append2 dropWhile_append2)

lemma parse_json_i64: "\<not> json_digit c \<Longrightarrow> parse_i64 (json_i64 w @ c # t) = Some (w, c # t)"
proof -
  assume c: "\<not> json_digit c"
  have "json_digit (hd (nat_dec n))" for n using json_nat_digits [of n] by simp
  moreover have "\<not> json_digit (CHR ''-'')" by (simp add: json_digit_def)
  ultimately have "\<not> HasPrefix (nat_dec n @ c # t) ''-''" for n
    using json_nat_digits [of n] by (cases "nat_dec n") force+
  with c show ?thesis by (simp add: parse_i64_def json_i64_def int_dec_def parse_nat_dec)
qed

definition json_bool :: "bool \<Rightarrow> string" where
  "json_bool b = (if b then ''true'' else ''false'')"

definition parse_bool :: "string \<Rightarrow> (bool \<times> string) option" where
  "parse_bool s =
     (if HasPrefix s ''true'' then Some (True, drop 4 s)
      else if HasPrefix s ''false'' then Some (False, drop 5 s) else None)"

lemma parse_json_bool [simp]: "parse_bool (json_bool b @ t) = Some (b, t)"
  by (cases b) (simp_all add: parse_bool_def json_bool_def)

text \<open>The name of a member, after the brace or comma before it.\<close>

definition json_member :: "char \<Rightarrow> string \<Rightarrow> string" where
  "json_member sep name = sep # json_quote # name @ [json_quote, CHR '':'']"

definition json_expect :: "string \<Rightarrow> string \<Rightarrow> string option" where
  "json_expect w s = (if HasPrefix s w then Some (drop (length w) s) else None)"

lemma expect_append [simp]: "json_expect w (w @ s) = Some s" "json_expect w w = Some []"
  by (simp_all add: json_expect_def)

lemma parse_i64_member [simp]:
  "parse_i64 (json_i64 w @ json_member (CHR '','') name @ t) = Some (w, json_member (CHR '','') name @ t)"
  by (simp add: json_member_def parse_json_i64 json_digit_def)

section \<open>Requests\<close>

definition json_closing :: string where "json_closing = ''}}''"

definition json_request :: "isolationRequest \<Rightarrow> string" where
  "json_request r =
     json_member (CHR ''{'') ''allowed_dirs'' @ json_list (AllowedDirs_req r) @
     json_member (CHR '','') ''read_only_dirs'' @ json_list (ReadOnlyDirs_req r) @
     json_member (CHR '','') ''working_dir'' @ json_string (WorkingDir_req r) @
     json_member (CHR '','') ''command'' @ json_list (Command_req r) @
     json_member (CHR '','') ''allow_network'' @ json_bool (AllowNetwork_req r) @
     json_member (CHR '','') ''resource_limits'' @
     json_member (CHR ''{'') ''cpu_time_sec'' @ json_i64 (CPUTimeSec_lim (ResourceLimits_req r)) @
     json_member (CHR '','') ''max_memory_bytes'' @ json_i64 (MaxMemoryBytes_lim (ResourceLimits_req r)) @
     json_member (CHR '','') ''max_processes'' @ json_i64 (MaxProcesses_lim (ResourceLimits_req r)) @
     json_member (CHR '','') ''max_file_size_bytes'' @ json_i64 (MaxFileSizeBytes_lim (ResourceLimits_req r)) @
     json_member (CHR '','') ''max_open_files'' @ json_i64 (MaxOpenFiles_lim (ResourceLimits_req r)) @ json_closing"

definition parse_limits :: "string \<Rightarrow> (isolationResourceLimits \<times> string) option" where
  "parse_limits s = do {
     s \<leftarrow> json_expect (json_member (CHR ''{'') ''cpu_time_sec'') s; (a, s) \<leftarrow> parse_i64 s;
     s \<leftarrow> json_expect (json_member (CHR '','') ''max_memory_bytes'') s; (b, s) \<leftarrow> parse_i64 s;
     s \<leftarrow> json_expect (json_member (CHR '','') ''max_processes'') s; (c, s) \<leftarrow> parse_i64 s;
     s \<leftarrow> json_expect (json_member (CHR '','') ''max_file_size_bytes'') s; (d, s) \<leftarrow> parse_i64 s;
     s \<leftarrow> json_expect (json_member (CHR '','') ''max_open_files'') s; (e, s) \<leftarrow> parse_i64 s;
     Some (\<lparr>CPUTimeSec_lim = a, MaxMemoryBytes_lim = b, MaxProcesses_lim = c, MaxFileSizeBytes_lim = d,
       MaxOpenFiles_lim = e\<rparr>, s) }"

definition parse_request :: "string \<Rightarrow> isolationRequest option" where
  "parse_request s = do {
     s \<leftarrow> json_expect (json_member (CHR ''{'') ''allowed_dirs'') s; (dirs, s) \<leftarrow> parse_list s;
     s \<leftarrow> json_expect (json_member (CHR '','') ''read_only_dirs'') s; (readOnly, s) \<leftarrow> parse_list s;
     s \<leftarrow> json_expect (json_member (CHR '','') ''working_dir'') s; (dir, s) \<leftarrow> parse_string s;
     s \<leftarrow> json_expect (json_member (CHR '','') ''command'') s; (argv, s) \<leftarrow> parse_list s;
     s \<leftarrow> json_expect (json_member (CHR '','') ''allow_network'') s; (network, s) \<leftarrow> parse_bool s;
     s \<leftarrow> json_expect (json_member (CHR '','') ''resource_limits'') s; (limits, s) \<leftarrow> parse_limits s;
     if s = json_closing
     then Some \<lparr>AllowedDirs_req = dirs, ReadOnlyDirs_req = readOnly, WorkingDir_req = dir, Command_req = argv,
       AllowNetwork_req = network, ResourceLimits_req = limits\<rparr>
     else None }"

definition json_codec :: request_json where
  "json_codec = \<lparr>marshal_request = \<lambda>r. Some (json_request r), unmarshal_request = parse_request\<rparr>"

lemma parse_json_request: "parse_request (json_request r) = Some (coerce_request r)"
proof -
  have final: "parse_i64 (json_i64 w @ json_closing) = Some (w, json_closing)" for w
    by (simp add: json_closing_def parse_json_i64 json_digit_def)
  show ?thesis
    unfolding parse_request_def json_request_def parse_limits_def coerce_request_def
    by (simp add: final)
qed

lemma json_codec_coerces [simp]:
  "marshal_request json_codec r = Some (json_request r)"
  "unmarshal_request json_codec (json_request r) = Some (coerce_request r)"
  by (simp_all add: json_codec_def parse_json_request)

section \<open>Properties\<close>

text \<open>
  Property C27: the command the parent builds is recognised as a helper invocation, and the
  helper calls the platform's isolation with the request the parent made, in which the bytes
  that are not UTF-8 are replaced; so it is that very request when its strings are UTF-8. The
  JSON coding is any that gives a request back in this way.
\<close>
theorem helper_roundtrip:
  assumes "\<And>payload. marshal_request J request = Some payload \<Longrightarrow> unmarshal_request J payload = Some (coerce_request request)"
    and "newIsolatedCommand J helperPath request = Inr (prog, args)"
    and "WorkingDir_req request \<noteq> ''''" "Command_req request = c # cs" "c \<noteq> ''''"
  shows "IsSandboxHelperInvocation (prog # args) \<and>
     RunSandboxHelper J fail run (prog # args) = run (coerce_request request) \<and>
     (utf8_request request \<longrightarrow> RunSandboxHelper J fail run (prog # args) = run request)"
  using helper_inverse [of J request helperPath prog args c cs fail run] assms by (simp add: coerce_utf8)

theorem helper_roundtrip_witness:
  "RunSandboxHelper json_codec (\<lambda>_. None) Some
     [''/proc/self/exe'', sandboxHelperArgument, EncodeToString (json_request demo_request)] = Some demo_request"
proof -
  have "utf8_request demo_request"
    by (simp add: utf8_request_def demo_request_def valid_utf8_def ascii_def)
  then show ?thesis
    using helper_roundtrip [of json_codec demo_request "''/proc/self/exe''" "''/proc/self/exe''"
        "[sandboxHelperArgument, EncodeToString (json_request demo_request)]" "''ls''" "[]" "\<lambda>_. None" Some]
    by (simp add: newIsolatedCommand_def) (simp add: demo_request_def)
qed

end
