(* ===== verification/Host.thy ===== *)
theory Host
  imports Request_Json Go_Filepath
begin

text \<open>
  What the sandbox asks of the operating system through \<^verbatim>\<open>os\<close>, \<^verbatim>\<open>path/filepath\<close> and
  \<^verbatim>\<open>runtime\<close>: a record of the answers, so that a function of the program is a HOL function of
  the host it runs on. Also \<open>pathWithin\<close>, which both the parent and the helper use, and the
  macOS boundary of \<^verbatim>\<open>seatbelt.go\<close> and \<^verbatim>\<open>isolation_darwin.go\<close>.
\<close>

section \<open>The host\<close>

record host =
  Getwd :: "string option"
  UserHomeDir :: "string option"
  Environ :: "string list"
  EvalSymlinks :: "string \<Rightarrow> string option"
  StatDir :: "string \<Rightarrow> bool option"
  ExecutableBit :: "string \<Rightarrow> bool"
  MkdirTemp :: "string option"
  WriteFile :: "string \<Rightarrow> string \<Rightarrow> bool"
  GOOS :: string
  Quote :: "string \<Rightarrow> string"

text \<open>
  \<open>StatDir\<close> is \<^verbatim>\<open>os.Stat\<close>: nothing there, or whether it is a directory. \<open>Quote\<close> is the verb \<^verbatim>\<open>%q\<close>.
  \<^verbatim>\<open>filepath.Abs\<close> fails only on a relative path when the working directory is unknown.
\<close>

definition AbsPath :: "('a host_scheme) \<Rightarrow> string \<Rightarrow> string option" where
  "AbsPath h s = (if IsAbs s then Some (Clean s)
     else (case Getwd h of None \<Rightarrow> None | Some wd \<Rightarrow> Some (Join [wd, s])))"

definition env_key :: "string \<Rightarrow> string" where
  "env_key e = takeWhile (\<lambda>c. c \<noteq> CHR ''='') e"

definition Getenv :: "('a host_scheme) \<Rightarrow> string \<Rightarrow> string" where
  "Getenv h key = (case find (\<lambda>e. CHR ''='' \<in> set e \<and> env_key e = key) (Environ h) of
     None \<Rightarrow> '''' | Some e \<Rightarrow> drop (Suc (length key)) e)"

section \<open>Containment of paths\<close>

definition pathWithin :: "string \<Rightarrow> string \<Rightarrow> bool" where
  "pathWithin path allowed =
     (case Rel allowed path of
        None \<Rightarrow> False
      | Some rel \<Rightarrow>
          if IsAbs rel then False
          else rel \<noteq> ''..'' \<and> \<not> HasPrefix rel (''..'' @ [slash]))"

lemma rel_first:
  assumes "es \<noteq> []" "\<forall>e \<in> set es. e \<noteq> '''' \<and> slash \<notin> set e"
  shows "\<not> IsAbs (join_with slash es) \<and>
     (join_with slash es = ''..'' \<or> HasPrefix (join_with slash es) (''..'' @ [slash]) \<longleftrightarrow> hd es = ''..'')"
proof
  have sp: "Split (join_with slash es) slash = es" using assms by (intro split_join) auto
  obtain c cs where e: "es = c # cs" "c \<noteq> ''''" "slash \<notin> set c" using assms by (cases es) auto
  show "\<not> IsAbs (join_with slash es)"
  proof
    assume "IsAbs (join_with slash es)"
    then obtain t where "join_with slash es = slash # t" by (auto simp: IsAbs_def prefix_def)
    moreover have "join_with slash es = c @ (if cs = [] then [] else slash # join_with slash cs)"
      using e by (cases cs) simp_all
    ultimately show False using e by (cases c) auto
  qed
  have "join_with slash es = ''..'' \<or> HasPrefix (join_with slash es) (''..'' @ [slash])
      \<longleftrightarrow> prefix (Split ''..'' slash) (Split (join_with slash es) slash)"
    by (rule prefix_split_on [symmetric])
  also have "\<dots> \<longleftrightarrow> hd es = ''..''" unfolding sp using e(1) by auto
  finally show "join_with slash es = ''..'' \<or> HasPrefix (join_with slash es) (''..'' @ [slash]) \<longleftrightarrow> hd es = ''..''" .
qed

lemma pathWithin_below:
  assumes "IsAbs path" "IsAbs allowed"
  shows "pathWithin path allowed \<longleftrightarrow> below allowed path"
proof (cases "clean_elems path = clean_elems allowed")
  case True
  then have "Rel allowed path = Some ''.''" using assms by (simp add: Rel_def Clean_eq_iff_abs)
  then show ?thesis using True by (simp add: pathWithin_def below_def IsAbs_def)
next
  case False
  obtain bs ts where st: "strip_common (clean_elems allowed) (clean_elems path) = (bs, ts)" by fastforce
  then obtain cs where cs: "clean_elems allowed = cs @ bs" "clean_elems path = cs @ ts"
      "bs = [] \<or> ts = [] \<or> hd bs \<noteq> hd ts"
    using strip_common_split by blast
  let ?es = "replicate (length bs) ''..'' @ ts"
  have "Rel allowed path \<noteq> None" using assms by (intro Rel_abs_total)
  then have rel: "Rel allowed path = Some (join_with slash ?es)"
    using assms False st by (auto simp: Rel_def Clean_eq_iff_abs rel_elems_def split: if_splits)
  have plain: "plain_elem t" if "t \<in> set ts" for t
    using clean_elems_abs_plain [OF assms(1)] that cs(2) by simp
  have ne: "?es \<noteq> []" using False cs by auto
  have ok: "\<forall>e \<in> set ?es. e \<noteq> '''' \<and> slash \<notin> set e" using plain by (auto simp: plain_elem_def)
  have "pathWithin path allowed \<longleftrightarrow> hd ?es \<noteq> ''..''"
    using rel_first [OF ne ok] unfolding pathWithin_def rel option.case by argo
  also have "\<dots> \<longleftrightarrow> bs = []"
  proof (cases bs)
    case Nil
    with ne plain [of "hd ts"] show ?thesis by (auto simp: plain_elem_def)
  qed simp
  also have "\<dots> \<longleftrightarrow> below allowed path"
    using cs unfolding below_def by (cases bs; cases ts) auto
  finally show ?thesis .
qed

section \<open>The macOS boundary\<close>

definition sandboxExecPath :: string where "sandboxExecPath = ''/usr/bin/sandbox-exec''"

definition secretVaultDirs :: "string \<Rightarrow> string list" where
  "secretVaultDirs home =
     (if home = '''' then []
      else [Join [home, ''.ssh''], Join [home, ''.aws''], Join [home, ''.gnupg'']])"

definition seatbeltProfile :: "(string \<Rightarrow> string) \<Rightarrow> isolationRequest \<Rightarrow> string \<Rightarrow> string" where
  "seatbeltProfile quote req home =
     ''(version 1)'' @ [CHR 0x0A] @ ''(allow default)'' @ [CHR 0x0A] @
     (if \<not> AllowNetwork_req req then ''(deny network*)'' @ [CHR 0x0A] else '''') @
     concat (map (\<lambda>dir. ''(deny file-read* (subpath '' @ quote dir @ ''))'' @ [CHR 0x0A] @
                       ''(deny file-write* (subpath '' @ quote dir @ ''))'' @ [CHR 0x0A])
       (secretVaultDirs home))"

definition darwin_isolationSupported :: "host \<Rightarrow> bool \<Rightarrow> string option" where
  "darwin_isolationSupported h allowNetwork =
     (case StatDir h sandboxExecPath of
        None \<Rightarrow> Some (''sandbox-exec unavailable at '' @ sandboxExecPath)
      | Some isdir \<Rightarrow>
          if isdir \<or> \<not> ExecutableBit h sandboxExecPath
          then Some (''sandbox-exec at '' @ sandboxExecPath @ '' is not executable'')
          else None)"

definition darwin_isolationHelperPath :: "host \<Rightarrow> (string, string) result" where
  "darwin_isolationHelperPath h =
     (case darwin_isolationSupported h False of Some e \<Rightarrow> Inl e | None \<Rightarrow> Inr sandboxExecPath)"

definition newDarwinSandboxCommand ::
    "host \<Rightarrow> string \<Rightarrow> isolationRequest \<Rightarrow> (string, string \<times> string list) result"
where
  "newDarwinSandboxCommand h tempHome req =
     (let home = (case UserHomeDir h of None \<Rightarrow> '''' | Some d \<Rightarrow> d);
          profile = seatbeltProfile (Quote h) req home;
          path = Join [tempHome, ''paldron.sbpl''] in
      if \<not> WriteFile h path profile then Inl ''write sandbox profile''
      else Inr (sandboxExecPath, [''-f'', path] @ Command_req req))"

text \<open>Elsewhere than on macOS the function is a stub that fails.\<close>

definition stub_newDarwinSandboxCommand ::
    "host \<Rightarrow> string \<Rightarrow> isolationRequest \<Rightarrow> (string, string \<times> string list) result"
where
  "stub_newDarwinSandboxCommand h tempHome req = Inl ''darwin sandbox-exec path used on a non-darwin host''"

definition darwin_runIsolated :: "isolationRequest \<Rightarrow> string option" where
  "darwin_runIsolated req = Some ''darwin isolation runs via sandbox-exec, not the re-exec helper''"

text \<open>On other systems there is no isolation at all.\<close>

definition other_isolationSupported :: "string \<Rightarrow> bool \<Rightarrow> string option" where
  "other_isolationSupported goos allowNetwork =
     Some (''OS process isolation is currently supported only on Linux (this host is '' @ goos @
       ''); use require_os_isolation=false for policy-gate-only mode'')"

definition other_isolationHelperPath :: "string \<Rightarrow> (string, string) result" where
  "other_isolationHelperPath goos =
     (case other_isolationSupported goos False of Some e \<Rightarrow> Inl e | None \<Rightarrow> Inr '''')"

definition other_runIsolated :: "string \<Rightarrow> isolationRequest \<Rightarrow> string option" where
  "other_runIsolated goos req = other_isolationSupported goos False"

section \<open>Properties\<close>

definition deny_vault :: "(string \<Rightarrow> string) \<Rightarrow> string \<Rightarrow> string list" where
  "deny_vault quote d = [''(deny file-read* (subpath '' @ quote d @ ''))'', ''(deny file-write* (subpath '' @ quote d @ ''))'']"

lemma split_lines:
  "(\<forall>l \<in> set ls. c \<notin> set l) \<Longrightarrow> Split (concat (map (\<lambda>l. l @ [c]) ls)) c = ls @ ['''']"
  by (induction ls) (simp_all add: split_on_sep)

lemma seatbelt_lines:
  "seatbeltProfile quote req home = concat (map (\<lambda>l. l @ [CHR 0x0A])
     ([''(version 1)'', ''(allow default)''] @ (if AllowNetwork_req req then [] else [''(deny network*)'']) @
      concat (map (deny_vault quote) (secretVaultDirs home))))"
  by (simp add: seatbeltProfile_def secretVaultDirs_def deny_vault_def)

text \<open>
  Property C28: on absolute paths, \<open>pathWithin\<close> holds exactly when the clean elements of the
  allowed directory are a prefix of those of the path: no sibling with a longer name and no
  climb through \<^verbatim>\<open>..\<close> passes.
\<close>
theorem pathWithin_iff:
  assumes "IsAbs path" "IsAbs allowed"
  shows "pathWithin path allowed \<longleftrightarrow> prefix (clean_elems allowed) (clean_elems path)"
  using pathWithin_below [OF assms] by (simp add: below_def)

theorem pathWithin_iff_witness: "\<not> pathWithin ''/work/../workshop'' ''/work''"
  using pathWithin_iff [of "''/work/../workshop''" "''/work''"] by (simp add: IsAbs_def clean_elems_def)

text \<open>
  Read line by line, the Seatbelt profile allows by default, denies the network
  exactly when the request does, and denies reading and then writing each credential vault of
  the home directory; there is no other line, as long as quoting leaves no line break in a path.
\<close>
theorem seatbelt_profile_lines:
  assumes "\<And>d. CHR 0x0A \<notin> set (quote d)"
  shows "Split (seatbeltProfile quote req home) (CHR 0x0A) =
       [''(version 1)'', ''(allow default)''] @ (if AllowNetwork_req req then [] else [''(deny network*)'']) @
       concat (map (deny_vault quote) (secretVaultDirs home)) @ [''''] \<and>
     (''(deny network*)'' \<in> set (Split (seatbeltProfile quote req home) (CHR 0x0A)) \<longleftrightarrow> \<not> AllowNetwork_req req)"
proof -
  have "Split (seatbeltProfile quote req home) (CHR 0x0A) =
       ([''(version 1)'', ''(allow default)''] @ (if AllowNetwork_req req then [] else [''(deny network*)'']) @
        concat (map (deny_vault quote) (secretVaultDirs home))) @ ['''']"
    unfolding seatbelt_lines by (rule split_lines) (use assms in \<open>auto simp: deny_vault_def\<close>)
  moreover have "''(deny network*)'' \<notin> set (concat (map (deny_vault quote) (secretVaultDirs home)))"
    by (auto simp: deny_vault_def)
  ultimately show ?thesis by simp
qed

theorem seatbelt_profile_lines_witness:
  "''(deny network*)'' \<in> set (Split (seatbeltProfile (\<lambda>d. filter (\<lambda>c. c \<noteq> CHR 0x0A) d) demo_request ''/home/u'') (CHR 0x0A))"
  using seatbelt_profile_lines [of "\<lambda>d. filter (\<lambda>c. c \<noteq> CHR 0x0A) d" demo_request "''/home/u''"]
  by (simp add: demo_request_def)

end
