(* ===== verification/Sandbox.thy ===== *)
theory Sandbox
  imports Host Output
begin

text \<open>
  \<^verbatim>\<open>internal/sandbox/sandbox.go\<close>: the configuration with its defaults, the blacklist and the
  whitelist, the environment, and the execution of a command. \<open>prepare\<close> is everything
  \<^verbatim>\<open>executeParts\<close> does before \<^verbatim>\<open>cmd.Run\<close>; \<open>collect\<close> is what it does with the outcome.
\<close>

section \<open>Configuration\<close>

record SandboxConfig =
  Enabled_sb :: bool
  RequireOSIsolation_sb :: bool
  AllowNetwork_sb :: bool
  HelperPath_sb :: string
  AllowedDirs_sb :: "string list"
  BlockedPatterns_sb :: "string list"
  AllowedBinaries_sb :: "string list"
  TimeoutSec_sb :: i64
  MaxOutputBytes_sb :: i64
  CPUTimeSec_sb :: i64
  MaxMemoryBytes_sb :: i64
  MaxProcesses_sb :: i64
  MaxFileSizeBytes_sb :: i64
  MaxOpenFiles_sb :: i64

definition coreBlocked :: "string list" where
  "coreBlocked = [''rm -rf /'', ''rm -rf /*'', ''sudo '', ''mkfs'', ''dd if='', '':(){ :|:& };:'',
     ''> /dev/sd'', ''chmod 777 /'', ''chown '', ''passwd'', ''shutdown'', ''reboot'', ''init 0'',
     ''kill -9 1'', ''/etc/shadow'', ''/etc/passwd'', ''curl | sh'', ''curl | bash'',
     ''wget -O - | sh'', ''eval '', [CHR 0x60], ''$('']"

definition or_default :: "i64 \<Rightarrow> i64 \<Rightarrow> i64" where
  "or_default v d = (if nonpos v then d else v)"

text \<open>The sandbox is its completed configuration.\<close>

definition NewSandbox :: "SandboxConfig \<Rightarrow> SandboxConfig" where
  "NewSandbox cfg0 =
     (let c = cfg0\<lparr>TimeoutSec_sb := or_default (TimeoutSec_sb cfg0) 30\<rparr>;
          c = c\<lparr>MaxOutputBytes_sb := or_default (MaxOutputBytes_sb c) (64 * 1024)\<rparr>;
          c = c\<lparr>CPUTimeSec_sb := or_default (CPUTimeSec_sb c) (TimeoutSec_sb c)\<rparr>;
          c = c\<lparr>MaxMemoryBytes_sb := or_default (MaxMemoryBytes_sb c) defaultSandboxMaxMemoryBytes\<rparr>;
          c = c\<lparr>MaxProcesses_sb := or_default (MaxProcesses_sb c) defaultSandboxMaxProcesses\<rparr>;
          c = c\<lparr>MaxFileSizeBytes_sb := or_default (MaxFileSizeBytes_sb c) defaultSandboxMaxFileSize\<rparr>;
          c = c\<lparr>MaxOpenFiles_sb := or_default (MaxOpenFiles_sb c) defaultSandboxMaxOpenFiles\<rparr>
      in c\<lparr>BlockedPatterns_sb := BlockedPatterns_sb c @
             filter (\<lambda>p. p \<notin> set (BlockedPatterns_sb c)) coreBlocked\<rparr>)"

section \<open>Blacklist and whitelist\<close>

definition checkBlacklist :: "unicode \<Rightarrow> SandboxConfig \<Rightarrow> string \<Rightarrow> string" where
  "checkBlacklist U s command =
     (let normalized = ToLower U (TrimSpace command) in
      case find (\<lambda>pat. Contains normalized (ToLower U pat)) (BlockedPatterns_sb s) of
        Some pat \<Rightarrow> pat
      | None \<Rightarrow> '''')"

definition isBinaryAllowed :: "SandboxConfig \<Rightarrow> string \<Rightarrow> bool" where
  "isBinaryAllowed s command =
     (case Fields (TrimSpace command) of
        [] \<Rightarrow> False
      | first # _ \<Rightarrow> let binary = Base first in list_ex (\<lambda>allowed. binary = allowed) (AllowedBinaries_sb s))"

text \<open>
  The blacklist passes a command that holds none of the patterns listed before the first empty
  one; an empty pattern is found in every command, and then stands for no violation.
\<close>

lemma checkBlacklist_passes:
  "checkBlacklist U s command = '''' \<longleftrightarrow>
     (\<forall>pat \<in> set (takeWhile (\<lambda>q. q \<noteq> '''') (BlockedPatterns_sb s)).
        \<not> Contains (ToLower U (TrimSpace command)) (ToLower U pat))"
proof -
  have low: "ToLower U [] = []" by (simp add: ToLower_def runes_def string_of_runes_def)
  have "(case find (\<lambda>pat. Contains n (ToLower U pat)) ps of Some pat \<Rightarrow> pat | None \<Rightarrow> '''') = '''' \<longleftrightarrow>
      (\<forall>pat \<in> set (takeWhile (\<lambda>q. q \<noteq> '''') ps). \<not> Contains n (ToLower U pat))" for n ps
    by (induction ps) (auto simp: low)
  then show ?thesis by (simp add: checkBlacklist_def Let_def)
qed

lemma isBinaryAllowed_iff:
  "isBinaryAllowed s command \<longleftrightarrow>
     (\<exists>first rest. Fields (TrimSpace command) = first # rest \<and> Base first \<in> set (AllowedBinaries_sb s))"
  by (auto simp: isBinaryAllowed_def Let_def list_ex_iff split: list.splits)

section \<open>The environment\<close>

definition safeKeys :: "string list" where
  "safeKeys = [''PATH'', ''HOME'', ''USER'', ''LANG'', ''LC_ALL'', ''TERM'', ''TMPDIR'', ''GOPATH'',
     ''GOROOT'', ''CARGO_HOME'', ''RUSTUP_HOME'', ''NODE_PATH'', ''PYTHON'']"

definition sanitizedEnv :: "host \<Rightarrow> string list" where
  "sanitizedEnv h = filter (\<lambda>e. env_key e \<in> set safeKeys) (Environ h)"

definition cargoHome :: "host \<Rightarrow> string" where
  "cargoHome h =
     (if Getenv h ''CARGO_HOME'' \<noteq> '''' then Getenv h ''CARGO_HOME''
      else (case UserHomeDir h of Some home \<Rightarrow> Join [home, ''.cargo''] | None \<Rightarrow> ''''))"

definition rustupHome :: "host \<Rightarrow> string" where
  "rustupHome h =
     (if Getenv h ''RUSTUP_HOME'' \<noteq> '''' then Getenv h ''RUSTUP_HOME''
      else (case UserHomeDir h of Some home \<Rightarrow> Join [home, ''.rustup''] | None \<Rightarrow> ''''))"

definition readOnlyDependencyCaches :: "host \<Rightarrow> string list" where
  "readOnlyDependencyCaches h =
     (let reg = Join [cargoHome h, ''registry''] in
      if reg \<noteq> [slash] \<and> StatDir h reg = Some True then [reg] else []) @
     (let tc = Join [rustupHome h, ''toolchains''] in
      if tc \<noteq> [slash] \<and> StatDir h tc = Some True then [tc] else [])"

definition withEnvironmentOverrides :: "string list \<Rightarrow> (string \<times> string) list \<Rightarrow> string list" where
  "withEnvironmentOverrides env overrides =
     filter (\<lambda>entry. map_of overrides (env_key entry) = None) env @
     map (\<lambda>(key, v). key @ ''='' @ v) overrides"

definition isolated_overrides :: "host \<Rightarrow> string \<Rightarrow> (string \<times> string) list" where
  "isolated_overrides h tempHome =
     [(''HOME'', tempHome), (''TMPDIR'', tempHome), (''GOCACHE'', Join [tempHome, ''go-cache'']),
      (''CARGO_HOME'', cargoHome h), (''RUSTUP_HOME'', rustupHome h),
      (''XDG_CACHE_HOME'', Join [tempHome, ''xdg-cache'']),
      (''NPM_CONFIG_CACHE'', Join [tempHome, ''npm-cache'']),
      (''PIP_CACHE_DIR'', Join [tempHome, ''pip-cache'']),
      (''PYTHONPYCACHEPREFIX'', Join [tempHome, ''python-cache''])]"

section \<open>The directory jail\<close>

text \<open>One allowed directory as the jail resolves it, or nothing when it is skipped.\<close>

definition resolve_allowed :: "host \<Rightarrow> string \<Rightarrow> string option" where
  "resolve_allowed h allowed =
     (case (if HasPrefix allowed (''~'' @ [slash])
            then map_option (\<lambda>home. Join [home, drop 2 allowed]) (UserHomeDir h)
            else Some allowed) of
        None \<Rightarrow> None
      | Some expanded \<Rightarrow>
          (case AbsPath h expanded of
             None \<Rightarrow> None
           | Some absAllowed \<Rightarrow>
               (case EvalSymlinks h absAllowed of
                  None \<Rightarrow> Some absAllowed
                | Some realAllowed \<Rightarrow> Some realAllowed)))"

definition isInsideAllowedDir :: "host \<Rightarrow> SandboxConfig \<Rightarrow> string \<Rightarrow> bool" where
  "isInsideAllowedDir h s targetDir =
     list_ex (\<lambda>allowed. case resolve_allowed h allowed of
          None \<Rightarrow> False | Some realAllowed \<Rightarrow> pathWithin targetDir realAllowed) (AllowedDirs_sb s)"

text \<open>The working directory with symbolic links resolved; a missing one by its parent.\<close>

definition resolve_dir :: "host \<Rightarrow> string \<Rightarrow> (string, string) result" where
  "resolve_dir h dir =
     (case AbsPath h dir of
        None \<Rightarrow> Inl ''Invalid directory''
      | Some absDir \<Rightarrow>
          (case EvalSymlinks h absDir of
             Some realDir \<Rightarrow> Inr realDir
           | None \<Rightarrow>
               (case EvalSymlinks h (Dir absDir) of
                  None \<Rightarrow> Inl ''Directory not accessible''
                | Some realParent \<Rightarrow> Inr (Join [realParent, Base absDir]))))"

section \<open>Execution\<close>

record cmd =
  cmd_name :: string
  cmd_args :: "string list"
  cmd_dir :: string
  cmd_env :: "string list"
  cmd_pgid :: bool

text \<open>The two build variants of \<^verbatim>\<open>setProcessGroup\<close>, and the one of the host.\<close>

definition setProcessGroup_unix :: "cmd \<Rightarrow> cmd" where
  "setProcessGroup_unix c = c\<lparr>cmd_pgid := True\<rparr>"

definition setProcessGroup_windows :: "cmd \<Rightarrow> cmd" where
  "setProcessGroup_windows c = c"

definition setProcessGroup :: "('a host_scheme) \<Rightarrow> cmd \<Rightarrow> cmd" where
  "setProcessGroup h c =
     (if GOOS h = ''windows'' then setProcessGroup_windows c else setProcessGroup_unix c)"

lemma setProcessGroup_fresh [simp]:
  "setProcessGroup h \<lparr>cmd_name = n, cmd_args = as, cmd_dir = d, cmd_env = e, cmd_pgid = False\<rparr> =
     \<lparr>cmd_name = n, cmd_args = as, cmd_dir = d, cmd_env = e, cmd_pgid = GOOS h \<noteq> ''windows''\<rparr>"
  by (simp add: setProcessGroup_def setProcessGroup_unix_def setProcessGroup_windows_def)

text \<open>What the operating system offers for isolation (the functions of one platform file).\<close>

record platform =
  supported :: "bool \<Rightarrow> string option"
  helper_path :: "(string, string) result"
  darwin_command :: "string \<Rightarrow> isolationRequest \<Rightarrow> (string, string \<times> string list) result"

definition HasOSIsolation :: "platform \<Rightarrow> SandboxConfig \<Rightarrow> bool" where
  "HasOSIsolation P s \<longleftrightarrow>
     Enabled_sb s \<and> RequireOSIsolation_sb s \<and> HelperPath_sb s \<noteq> '''' \<and> supported P (AllowNetwork_sb s) = None"

definition show_list :: "string list \<Rightarrow> string" where
  "show_list xs = ''['' @ join_with (CHR '' '') xs @ '']''"

definition isolation_request :: "host \<Rightarrow> SandboxConfig \<Rightarrow> string list \<Rightarrow> string \<Rightarrow> string \<Rightarrow> string list \<Rightarrow> isolationRequest"
where
  "isolation_request h s isolationRoots tempHome realDir parts =
     \<lparr>AllowedDirs_req = isolationRoots @ [tempHome], ReadOnlyDirs_req = readOnlyDependencyCaches h,
      WorkingDir_req = realDir, Command_req = parts, AllowNetwork_req = AllowNetwork_sb s,
      ResourceLimits_req = \<lparr>CPUTimeSec_lim = CPUTimeSec_sb s, MaxMemoryBytes_lim = MaxMemoryBytes_sb s,
        MaxProcesses_lim = MaxProcesses_sb s, MaxFileSizeBytes_lim = MaxFileSizeBytes_sb s,
        MaxOpenFiles_lim = MaxOpenFiles_sb s\<rparr>\<rparr>"

text \<open>The command that runs the request behind the platform's boundary, with its environment.\<close>

definition isolated_command ::
    "host \<Rightarrow> platform \<Rightarrow> request_json \<Rightarrow> SandboxConfig \<Rightarrow> string list \<Rightarrow> string \<Rightarrow> string list \<Rightarrow>
     (string, (string \<times> string list) \<times> string list) result"
where
  "isolated_command h P J s parts realDir isolationRoots =
     (case supported P (AllowNetwork_sb s) of
        Some e \<Rightarrow> Inl (''OS isolation unavailable: '' @ e)
      | None \<Rightarrow>
          (case MkdirTemp h of
             None \<Rightarrow> Inl ''Create isolated home''
           | Some tempHome \<Rightarrow>
               bind_result
                 (let request = isolation_request h s isolationRoots tempHome realDir parts in
                  if GOOS h = ''darwin'' then darwin_command P tempHome request
                  else newIsolatedCommand J (HelperPath_sb s) request)
                 (\<lambda>command. Inr (command,
                    withEnvironmentOverrides (sanitizedEnv h) (isolated_overrides h tempHome) @
                    (if \<not> AllowNetwork_sb s then [''CARGO_NET_OFFLINE=true''] else [])))))"

definition prepare ::
    "unicode \<Rightarrow> host \<Rightarrow> platform \<Rightarrow> request_json \<Rightarrow> SandboxConfig \<Rightarrow> string \<Rightarrow> string list \<Rightarrow> string \<Rightarrow>
     string list \<Rightarrow> (string, cmd) result"
where
  "prepare U h P J s policyCommand parts dir isolationRoots =
     (if \<not> Enabled_sb s then
        Inl ''Code execution is disabled. Set security.sandbox.enabled = true in reeve.toml''
      else if dir = '''' then Inl ''Working directory 'dir' is required''
      else bind_result (resolve_dir h dir) (\<lambda>realDir.
        if \<not> isInsideAllowedDir h s realDir then
          Inl (''Directory '' @ dir @ '' is outside allowed paths. Allowed: '' @ show_list (AllowedDirs_sb s))
        else if StatDir h realDir \<noteq> Some True then Inl (''Directory does not exist: '' @ dir)
        else if checkBlacklist U s policyCommand \<noteq> '''' then
          Inl (''BLOCKED: Command contains forbidden pattern '' @ checkBlacklist U s policyCommand)
        else if 0 < length (AllowedBinaries_sb s) \<and> \<not> isBinaryAllowed s policyCommand then
          Inl (''BLOCKED: Binary not in whitelist. Allowed: '' @ show_list (AllowedBinaries_sb s))
        else bind_result
          (if RequireOSIsolation_sb s then isolated_command h P J s parts realDir isolationRoots
           else Inr ((hd parts, tl parts), sanitizedEnv h))
          (\<lambda>((name, args), env). Inr (setProcessGroup h \<lparr>cmd_name = name, cmd_args = args,
             cmd_dir = realDir, cmd_env = env, cmd_pgid = False\<rparr>))))"

text \<open>
  What \<^verbatim>\<open>os/exec\<close> gives the child: the environment of the command, or for a nil one that of the
  parent. \<open>[]\<close> stands for nil: the filter leaves nil exactly when it keeps nothing, and the
  overrides of an isolated command never give an empty list.
\<close>

definition child_environment :: "host \<Rightarrow> cmd \<Rightarrow> string list" where
  "child_environment h c =
     (if cmd_env c = []
      then Environ h @ (if cmd_dir c \<noteq> '''' \<and> GOOS h \<noteq> ''windows'' then [''PWD='' @ cmd_dir c] else [])
      else cmd_env c)"

text \<open>What running a command leads to: the pieces written, the deadline, the error of \<^verbatim>\<open>Wait\<close>.\<close>

datatype wait_error = ExitError i64 | OtherError string

record outcome =
  out_pieces :: "string list"
  err_pieces :: "string list"
  deadline_exceeded :: bool
  wait_result :: "wait_error option"

definition error_result :: "string \<Rightarrow> ExecuteResult" where
  "error_result e = \<lparr>Stdout = '''', Stderr = '''', ExitCode = 0, TimedOut = False, Error = e\<rparr>"

definition collect :: "SandboxConfig \<Rightarrow> outcome \<Rightarrow> ExecuteResult" where
  "collect s oc =
     (let result = \<lparr>Stdout = buffer_String (capture (MaxOutputBytes_sb s) (out_pieces oc)),
                    Stderr = buffer_String (capture (MaxOutputBytes_sb s) (err_pieces oc)),
                    ExitCode = 0, TimedOut = False, Error = ''''\<rparr> in
      if deadline_exceeded oc then result\<lparr>TimedOut := True, ExitCode := -1\<rparr>
      else
        (case wait_result oc of
           None \<Rightarrow> result
         | Some (ExitError code) \<Rightarrow> result\<lparr>ExitCode := code\<rparr>
         | Some (OtherError e) \<Rightarrow> result\<lparr>ExitCode := -1, Error := e\<rparr>))"

definition executeParts ::
    "unicode \<Rightarrow> host \<Rightarrow> platform \<Rightarrow> request_json \<Rightarrow> (cmd \<Rightarrow> outcome) \<Rightarrow> SandboxConfig \<Rightarrow> string \<Rightarrow>
     string list \<Rightarrow> string \<Rightarrow> string list \<Rightarrow> ExecuteResult"
where
  "executeParts U h P J Run s policyCommand parts dir isolationRoots =
     (case prepare U h P J s policyCommand parts dir isolationRoots of
        Inl e \<Rightarrow> error_result e
      | Inr c \<Rightarrow> collect s (Run c))"

definition Execute ::
    "unicode \<Rightarrow> host \<Rightarrow> platform \<Rightarrow> request_json \<Rightarrow> (cmd \<Rightarrow> outcome) \<Rightarrow> SandboxConfig \<Rightarrow> string \<Rightarrow> string \<Rightarrow> ExecuteResult"
where
  "Execute U h P J Run s command dir =
     (let parts = Fields (TrimSpace command) in
      if length parts = 0 then error_result ''Empty command''
      else executeParts U h P J Run s command parts dir (AllowedDirs_sb s))"

definition ExecuteArgs ::
    "unicode \<Rightarrow> host \<Rightarrow> platform \<Rightarrow> request_json \<Rightarrow> (cmd \<Rightarrow> outcome) \<Rightarrow> SandboxConfig \<Rightarrow> string list \<Rightarrow> string \<Rightarrow> ExecuteResult"
where
  "ExecuteArgs U h P J Run s parts dir =
     (if length parts = 0 \<or> TrimSpace (parts ! 0) = '''' then error_result ''Empty command''
      else executeParts U h P J Run s (parts ! 0) parts dir (AllowedDirs_sb s))"

section \<open>The completed configuration\<close>

definition sandbox_ready :: "SandboxConfig \<Rightarrow> bool" where
  "sandbox_ready c \<longleftrightarrow>
     \<not> nonpos (TimeoutSec_sb c) \<and> \<not> nonpos (MaxOutputBytes_sb c) \<and> \<not> nonpos (CPUTimeSec_sb c) \<and>
     \<not> nonpos (MaxMemoryBytes_sb c) \<and> \<not> nonpos (MaxProcesses_sb c) \<and>
     \<not> nonpos (MaxFileSizeBytes_sb c) \<and> \<not> nonpos (MaxOpenFiles_sb c) \<and>
     set coreBlocked \<subseteq> set (BlockedPatterns_sb c)"

lemmas default_limits = defaultSandboxMaxMemoryBytes_def defaultSandboxMaxProcesses_def
  defaultSandboxMaxFileSize_def defaultSandboxMaxOpenFiles_def defaultSandboxCPUTimeSec_def

lemma positive_defaults [simp]:
  "\<not> nonpos 30" "\<not> nonpos 65536" "\<not> nonpos defaultSandboxMaxMemoryBytes"
  "\<not> nonpos defaultSandboxMaxProcesses" "\<not> nonpos defaultSandboxMaxFileSize"
  "\<not> nonpos defaultSandboxMaxOpenFiles" "\<not> nonpos defaultSandboxCPUTimeSec"
  by (simp_all add: nonpos_def default_limits)

lemma or_default_pos: "\<not> nonpos d \<Longrightarrow> \<not> nonpos (or_default v d)"
  by (simp add: or_default_def)

lemma or_default_fix: "\<not> nonpos d \<Longrightarrow> or_default v d = v \<longleftrightarrow> \<not> nonpos v"
  by (auto simp: or_default_def)

lemma NewSandbox_patterns:
  "BlockedPatterns_sb (NewSandbox c) =
     BlockedPatterns_sb c @ filter (\<lambda>p. p \<notin> set (BlockedPatterns_sb c)) coreBlocked"
  by (simp add: NewSandbox_def Let_def)

lemma NewSandbox_fixed: "NewSandbox c = c \<longleftrightarrow> sandbox_ready c"
proof
  assume r: "sandbox_ready c"
  then have "filter (\<lambda>p. p \<notin> set (BlockedPatterns_sb c)) coreBlocked = []"
    by (auto simp: sandbox_ready_def filter_empty_conv)
  with r show "NewSandbox c = c"
    by (simp add: NewSandbox_def Let_def or_default_def sandbox_ready_def)
next
  assume eq: "NewSandbox c = c"
  have "sandbox_ready (NewSandbox c)"
    by (auto simp: sandbox_ready_def NewSandbox_def Let_def or_default_pos)
  with eq show "sandbox_ready c" by simp
qed

lemma NewSandbox_form: "sandbox_ready (NewSandbox c)"
  by (auto simp: sandbox_ready_def NewSandbox_def Let_def or_default_pos)

interpretation config: normaliser NewSandbox sandbox_ready "\<lambda>_. True"
  by unfold_locales (simp_all add: NewSandbox_form NewSandbox_fixed)

section \<open>What a prepared command guarantees\<close>

lemma prepare_Inr [go_result]:
  "prepare U h P J s policyCommand parts dir roots = Inr c \<longleftrightarrow>
     Enabled_sb s \<and> dir \<noteq> '''' \<and>
     (\<exists>realDir name args env. resolve_dir h dir = Inr realDir \<and> isInsideAllowedDir h s realDir \<and>
        StatDir h realDir = Some True \<and> checkBlacklist U s policyCommand = '''' \<and>
        (AllowedBinaries_sb s = [] \<or> isBinaryAllowed s policyCommand) \<and>
        (if RequireOSIsolation_sb s then isolated_command h P J s parts realDir roots
         else Inr ((hd parts, tl parts), sanitizedEnv h)) = Inr ((name, args), env) \<and>
        c = \<lparr>cmd_name = name, cmd_args = args, cmd_dir = realDir, cmd_env = env, cmd_pgid = GOOS h \<noteq> ''windows''\<rparr>)"
  unfolding prepare_def by (auto simp: bind_result_Inr split: if_splits)

lemma isolated_command_Inr [go_result]:
  "isolated_command h P J s parts realDir roots = Inr (command, env) \<longleftrightarrow>
     supported P (AllowNetwork_sb s) = None \<and>
     (\<exists>tempHome. MkdirTemp h = Some tempHome \<and>
        (if GOOS h = ''darwin'' then darwin_command P tempHome (isolation_request h s roots tempHome realDir parts)
         else newIsolatedCommand J (HelperPath_sb s) (isolation_request h s roots tempHome realDir parts)) = Inr command \<and>
        env = withEnvironmentOverrides (sanitizedEnv h) (isolated_overrides h tempHome) @
              (if \<not> AllowNetwork_sb s then [''CARGO_NET_OFFLINE=true''] else []))"
proof (cases "supported P (AllowNetwork_sb s)")
  case None
  then show ?thesis
    unfolding isolated_command_def Let_def
    by (cases "MkdirTemp h"; cases command) (auto simp: bind_result_Inr)
qed (simp add: isolated_command_def)

lemma env_key_append: "CHR ''='' \<notin> set k \<Longrightarrow> env_key (k @ ''='' @ v) = k"
  by (simp add: env_key_def takeWhile_append)

definition isolated_vars :: "string list" where
  "isolated_vars = [''HOME'', ''TMPDIR'', ''GOCACHE'', ''CARGO_HOME'', ''RUSTUP_HOME'',
     ''XDG_CACHE_HOME'', ''NPM_CONFIG_CACHE'', ''PIP_CACHE_DIR'', ''PYTHONPYCACHEPREFIX'']"

lemma overrides_keys: "map fst (isolated_overrides h t) = isolated_vars"
  by (simp add: isolated_overrides_def isolated_vars_def)

lemma overrides_key_set: "fst ` set (isolated_overrides h t) = set isolated_vars"
  by (metis list.set_map overrides_keys)

lemma overrides_plain: "\<forall>k \<in> set (map fst (isolated_overrides h t)). CHR ''='' \<notin> set k"
  unfolding overrides_keys isolated_vars_def by simp

lemma override_entries_key:
  assumes "\<forall>k \<in> set (map fst ov). CHR ''='' \<notin> set k" "e \<in> set (map (\<lambda>(k, v). k @ ''='' @ v) ov)"
  shows "\<exists>v. (env_key e, v) \<in> set ov \<and> e = env_key e @ ''='' @ v"
proof -
  from assms(2) obtain k v where kv: "(k, v) \<in> set ov" "e = k @ ''='' @ v" by auto
  then have "env_key e = k" using assms(1) env_key_append [of k v] by force
  with kv show ?thesis by metis
qed

lemma with_overrides_entries:
  assumes "\<forall>k \<in> set (map fst ov). CHR ''='' \<notin> set k" "distinct (map fst ov)" "map_of ov k = Some v"
  shows "{e \<in> set (withEnvironmentOverrides env ov). env_key e = k} = {k @ ''='' @ v}"
proof (intro equalityI subsetI)
  fix e assume "e \<in> {e \<in> set (withEnvironmentOverrides env ov). env_key e = k}"
  then have e: "e \<in> set (map (\<lambda>(k, v). k @ ''='' @ v) ov)" "env_key e = k"
    using assms(3) unfolding withEnvironmentOverrides_def set_append set_filter by auto
  from override_entries_key [OF assms(1) e(1)] obtain v' where v': "(k, v') \<in> set ov" "e = k @ ''='' @ v'"
    unfolding e(2) by metis
  then have "v' = v" using assms(2,3) by (simp add: map_of_eq_Some_iff)
  with v' show "e \<in> {k @ ''='' @ v}" by simp
next
  fix e assume e: "e \<in> {k @ ''='' @ v}"
  have kv: "(k, v) \<in> set ov" using assms(3) by (rule map_of_SomeD)
  then have "k @ ''='' @ v \<in> set (map (\<lambda>(k, v). k @ ''='' @ v) ov)" by force
  moreover have "env_key (k @ ''='' @ v) = k" using assms(1) kv env_key_append [of k v] by force
  ultimately show "e \<in> {e \<in> set (withEnvironmentOverrides env ov). env_key e = k}"
    using e unfolding withEnvironmentOverrides_def by simp
qed

lemma with_overrides_keys:
  assumes "\<forall>k \<in> set (map fst ov). CHR ''='' \<notin> set k" "e \<in> set (withEnvironmentOverrides env ov)"
  shows "e \<in> set env \<or> env_key e \<in> fst ` set ov"
proof (cases "e \<in> set env")
  case False
  then have "e \<in> set (map (\<lambda>(k, v). k @ ''='' @ v) ov)"
    using assms(2) unfolding withEnvironmentOverrides_def by simp
  from override_entries_key [OF assms(1) this] show ?thesis by force
qed simp

lemma filter_append_none:
  "(\<And>y. y \<in> set ys \<Longrightarrow> \<not> P y) \<Longrightarrow> {e \<in> set (xs @ ys). P e} = {e \<in> set xs. P e}"
  by auto

section \<open>A concrete host\<close>

text \<open>Inputs on which the witnesses below apply the properties.\<close>

definition demo_host :: host where
  "demo_host = \<lparr>Getwd = Some ''/w'', UserHomeDir = Some ''/home/u'', Environ = [''HOME=/home/u'', ''AWS_KEY=x''],
     EvalSymlinks = Some, StatDir = \<lambda>p. if p = ''/w'' then Some True else None, ExecutableBit = \<lambda>_. True, MkdirTemp = Some ''/tmp/x'',
     WriteFile = \<lambda>_ _. True, GOOS = ''linux'', Quote = id\<rparr>"

definition demo_cfg :: SandboxConfig where
  "demo_cfg = \<lparr>Enabled_sb = True, RequireOSIsolation_sb = True, AllowNetwork_sb = False,
     HelperPath_sb = ''/proc/self/exe'', AllowedDirs_sb = [''/w''], BlockedPatterns_sb = [],
     AllowedBinaries_sb = [], TimeoutSec_sb = 1, MaxOutputBytes_sb = 1, CPUTimeSec_sb = 1,
     MaxMemoryBytes_sb = 1, MaxProcesses_sb = 1, MaxFileSizeBytes_sb = 1, MaxOpenFiles_sb = 1\<rparr>"

definition demo_platform :: platform where
  "demo_platform = \<lparr>supported = \<lambda>_. None, helper_path = Inr ''/proc/self/exe'', darwin_command = \<lambda>_ _. Inl ''''\<rparr>"

definition demo_iso :: isolationRequest where
  "demo_iso = isolation_request demo_host demo_cfg [''/w''] ''/tmp/x'' ''/w'' [''ls'']"

definition demo_env :: "string list" where
  "demo_env = withEnvironmentOverrides (sanitizedEnv demo_host) (isolated_overrides demo_host ''/tmp/x'')
     @ [''CARGO_NET_OFFLINE=true'']"

lemma demo_isolated:
  "isolated_command demo_host demo_platform json_codec demo_cfg [''ls''] ''/w'' [''/w''] =
     Inr ((''/proc/self/exe'', [sandboxHelperArgument, EncodeToString (json_request demo_iso)]), demo_env)"
  unfolding isolated_command_Inr demo_env_def
  by (simp add: demo_platform_def newIsolatedCommand_def demo_iso_def demo_host_def demo_cfg_def)

lemma demo_prepare:
  "prepare ascii_only demo_host demo_platform json_codec demo_cfg ''ls'' [''ls''] ''/w'' [''/w''] =
     Inr \<lparr>cmd_name = ''/proc/self/exe'', cmd_args = [sandboxHelperArgument, EncodeToString (json_request demo_iso)],
       cmd_dir = ''/w'', cmd_env = demo_env, cmd_pgid = True\<rparr>"
proof -
  have cl: "clean_elems ''/w'' = [''w'']" by (simp add: clean_elems_def IsAbs_def)
  then have c: "Clean ''/w'' = ''/w''" by (simp add: Clean_def IsAbs_def)
  have "resolve_dir demo_host ''/w'' = Inr ''/w''"
    by (simp add: resolve_dir_def AbsPath_def demo_host_def IsAbs_def c)
  moreover have "isInsideAllowedDir demo_host demo_cfg ''/w''"
    by (simp add: isInsideAllowedDir_def demo_cfg_def resolve_allowed_def AbsPath_def demo_host_def IsAbs_def c
        pathWithin_def Rel_def)
  ultimately show ?thesis
    unfolding prepare_Inr
    using demo_isolated by (simp add: demo_cfg_def demo_host_def checkBlacklist_def)
qed

lemma prepared_decodes:
  assumes "prepare U h P J s policyCommand (p # ps) dir roots = Inr c" "RequireOSIsolation_sb s" "GOOS h \<noteq> ''darwin''"
    and "\<And>r payload. marshal_request J r = Some payload \<Longrightarrow> unmarshal_request J payload = Some (coerce_request r)"
    and "p \<noteq> ''''" "cmd_dir c \<noteq> ''''"
  shows "\<exists>tempHome. MkdirTemp h = Some tempHome \<and>
     RunSandboxHelper J fail run (cmd_name c # cmd_args c)
       = run (coerce_request (isolation_request h s roots tempHome (cmd_dir c) (p # ps)))"
proof -
  from assms(1-3) obtain realDir name args env t where r:
    "newIsolatedCommand J (HelperPath_sb s) (isolation_request h s roots t realDir (p # ps)) = Inr (name, args)"
    "MkdirTemp h = Some t" "cmd_dir c = realDir" "cmd_name c = name" "cmd_args c = args"
    unfolding prepare_Inr by (auto simp: isolated_command_Inr)
  have "RunSandboxHelper J fail run (name # args) = run (coerce_request (isolation_request h s roots t realDir (p # ps)))"
    using helper_inverse [OF assms(4) r(1), of p ps fail run] assms(5,6) r(3)
    by (simp add: isolation_request_def)
  with r show ?thesis by blast
qed

section \<open>Properties\<close>

text \<open>
  Property C18: the constructor completes every configuration: all limits positive, every core
  pattern blocked, the configured patterns kept and first; and it leaves a complete
  configuration alone.
\<close>
theorem NewSandbox_completes:
  "sandbox_ready (NewSandbox c) \<and> NewSandbox (NewSandbox c) = NewSandbox c \<and>
   prefix (BlockedPatterns_sb c) (BlockedPatterns_sb (NewSandbox c))"
  using config.norm_form config.idem by (simp add: NewSandbox_patterns)

text \<open>
  Property C15: a command is started only with the sandbox enabled, in an existing directory that
  lies in a resolved allowed directory. The command text then holds, up to case, none of the
  blocked patterns listed before the first empty one, and where there is a whitelist the base name of
  its first word is in it. With isolation required the platform supports it, and what is started is
  the helper or \<^verbatim>\<open>sandbox-exec\<close>; without, it is the command itself.
\<close>
theorem started_within_policy:
  assumes "prepare U h P J s policyCommand parts dir roots = Inr c"
    and "\<And>t r command. darwin_command P t r = Inr command \<Longrightarrow> fst command = sandboxExecPath"
  shows "Enabled_sb s \<and> StatDir h (cmd_dir c) = Some True \<and>
     (\<exists>d \<in> set (AllowedDirs_sb s). \<exists>root. resolve_allowed h d = Some root \<and> pathWithin (cmd_dir c) root) \<and>
     (\<forall>pat \<in> set (takeWhile (\<lambda>q. q \<noteq> '''') (BlockedPatterns_sb s)).
        \<not> Contains (ToLower U (TrimSpace policyCommand)) (ToLower U pat)) \<and>
     (AllowedBinaries_sb s \<noteq> [] \<longrightarrow>
        (\<exists>first rest. Fields (TrimSpace policyCommand) = first # rest \<and> Base first \<in> set (AllowedBinaries_sb s))) \<and>
     (RequireOSIsolation_sb s \<longrightarrow> supported P (AllowNetwork_sb s) = None \<and>
        cmd_name c = (if GOOS h = ''darwin'' then sandboxExecPath else HelperPath_sb s)) \<and>
     (\<not> RequireOSIsolation_sb s \<longrightarrow> cmd_name c = hd parts \<and> cmd_args c = tl parts)"
proof -
  from assms(1) obtain realDir name args env where r:
    "Enabled_sb s" "isInsideAllowedDir h s realDir" "StatDir h realDir = Some True"
    "checkBlacklist U s policyCommand = ''''" "AllowedBinaries_sb s = [] \<or> isBinaryAllowed s policyCommand"
    "(if RequireOSIsolation_sb s then isolated_command h P J s parts realDir roots
      else Inr ((hd parts, tl parts), sanitizedEnv h)) = Inr ((name, args), env)"
    "cmd_dir c = realDir" "cmd_name c = name" "cmd_args c = args"
    unfolding prepare_Inr by auto
  have "supported P (AllowNetwork_sb s) = None \<and> name = (if GOOS h = ''darwin'' then sandboxExecPath else HelperPath_sb s)"
    if "RequireOSIsolation_sb s"
    using r(6) that assms(2) by (auto simp: isolated_command_Inr newIsolatedCommand_def split: if_splits option.splits)
  moreover have "name = hd parts \<and> args = tl parts" if "\<not> RequireOSIsolation_sb s" using r(6) that by simp
  moreover have "\<exists>d \<in> set (AllowedDirs_sb s). \<exists>root. resolve_allowed h d = Some root \<and> pathWithin realDir root"
    using r(2) by (auto simp: isInsideAllowedDir_def list_ex_iff split: option.splits)
  moreover note r(4) [unfolded checkBlacklist_passes]
  moreover have "AllowedBinaries_sb s \<noteq> [] \<longrightarrow>
      (\<exists>first rest. Fields (TrimSpace policyCommand) = first # rest \<and> Base first \<in> set (AllowedBinaries_sb s))"
    using r(5) unfolding isBinaryAllowed_iff by blast
  ultimately show ?thesis using r(1,3) unfolding r(7-9) by simp
qed

theorem started_within_policy_witness:
  "\<exists>d \<in> set (AllowedDirs_sb demo_cfg). \<exists>root. resolve_allowed demo_host d = Some root \<and> pathWithin ''/w'' root"
  using started_within_policy [OF demo_prepare] by (simp add: demo_platform_def)

text \<open>
  Property C17: the environment of an isolated command holds only variables of the safe list and
  those the sandbox sets, and the home directory in it is the ephemeral one, once.
\<close>
theorem isolated_environment:
  assumes "isolated_command h P J s parts realDir roots = Inr (command, env)"
  shows "(\<forall>e \<in> set env. env_key e \<in> set (safeKeys @ isolated_vars @ [''CARGO_NET_OFFLINE''])) \<and>
     (\<exists>tempHome. MkdirTemp h = Some tempHome \<and> {e \<in> set env. env_key e = ''HOME''} = {''HOME='' @ tempHome})"
proof -
  from assms obtain t where t: "MkdirTemp h = Some t"
    "env = withEnvironmentOverrides (sanitizedEnv h) (isolated_overrides h t) @
       (if \<not> AllowNetwork_sb s then [''CARGO_NET_OFFLINE=true''] else [])"
    by (auto simp: isolated_command_Inr)
  have offline: "env_key ''CARGO_NET_OFFLINE=true'' = ''CARGO_NET_OFFLINE''" by (simp add: env_key_def)
  have keys: "env_key e \<in> set safeKeys \<union> fst ` set (isolated_overrides h t) \<union> {''CARGO_NET_OFFLINE''}" if "e \<in> set env" for e
    using that with_overrides_keys [OF overrides_plain, of e "sanitizedEnv h"] unfolding t(2)
    by (cases "e = ''CARGO_NET_OFFLINE=true''") (auto simp: offline sanitizedEnv_def split: if_splits)

  have home: "{e \<in> set env. env_key e = ''HOME''} = {''HOME='' @ t}"
  proof -
    have "distinct (map fst (isolated_overrides h t))" unfolding overrides_keys isolated_vars_def by simp
    moreover have "map_of (isolated_overrides h t) ''HOME'' = Some t" by (simp add: isolated_overrides_def)
    ultimately have one: "{e \<in> set (withEnvironmentOverrides (sanitizedEnv h) (isolated_overrides h t)). env_key e = ''HOME''}
        = {''HOME'' @ ''='' @ t}"
      by (rule with_overrides_entries [OF overrides_plain])
    have "env_key ''CARGO_NET_OFFLINE=true'' \<noteq> ''HOME''" unfolding offline by simp
    then have "{e \<in> set env. env_key e = ''HOME''}
        = {e \<in> set (withEnvironmentOverrides (sanitizedEnv h) (isolated_overrides h t)). env_key e = ''HOME''}"
      unfolding t(2) by (intro filter_append_none) (simp split: if_splits)
    with one show ?thesis by simp
  qed
  show ?thesis using keys home t(1) unfolding overrides_key_set set_append list.set by blast
qed

theorem isolated_environment_witness:
  "env_key ` set demo_env \<subseteq> set (safeKeys @ isolated_vars @ [''CARGO_NET_OFFLINE'']) \<and>
   (\<exists>tempHome. MkdirTemp demo_host = Some tempHome \<and> {e \<in> set demo_env. env_key e = ''HOME''} = {''HOME='' @ tempHome})"
  using isolated_environment [OF demo_isolated] by blast

text \<open>
  The filtered environment leaks. When no variable of the safe list is set, the filter leaves the
  nil slice, and a command without isolation is started with everything that paldron itself was
  given.
\<close>
theorem empty_environment_leaks:
  assumes "prepare U h P J s policyCommand parts dir roots = Inr c" "\<not> RequireOSIsolation_sb s"
    and "\<forall>e \<in> set (Environ h). env_key e \<notin> set safeKeys"
  shows "prefix (Environ h) (child_environment h c)"
proof -
  have "sanitizedEnv h = []" using assms(3) by (simp add: sanitizedEnv_def)
  with assms(1,2) have "cmd_env c = []" unfolding prepare_Inr by auto
  then show ?thesis by (simp add: child_environment_def)
qed

theorem empty_environment_leaks_witness:
  "\<exists>c. ''AWS_KEY=x'' \<in> set (child_environment (demo_host\<lparr>Environ := [''AWS_KEY=x'']\<rparr>) c)"
proof -
  let ?h = "demo_host\<lparr>Environ := [''AWS_KEY=x'']\<rparr>" and ?s = "demo_cfg\<lparr>RequireOSIsolation_sb := False\<rparr>"
  have cl: "clean_elems ''/w'' = [''w'']" by (simp add: clean_elems_def IsAbs_def)
  then have c: "Clean ''/w'' = ''/w''" by (simp add: Clean_def IsAbs_def)
  have "resolve_dir ?h ''/w'' = Inr ''/w''"
    by (simp add: resolve_dir_def AbsPath_def demo_host_def IsAbs_def c)
  moreover have "isInsideAllowedDir ?h ?s ''/w''"
    by (simp add: isInsideAllowedDir_def demo_cfg_def resolve_allowed_def AbsPath_def demo_host_def IsAbs_def c
        pathWithin_def Rel_def)
  ultimately obtain cmd where cmd: "prepare ascii_only ?h demo_platform json_codec ?s ''ls'' [''ls''] ''/w'' [''/w''] = Inr cmd"
    unfolding prepare_Inr by (simp add: demo_cfg_def demo_host_def checkBlacklist_def)
  have "prefix (Environ ?h) (child_environment ?h cmd)"
    by (rule empty_environment_leaks [OF cmd]) (simp_all add: demo_cfg_def safeKeys_def env_key_def)
  then have "''AWS_KEY=x'' \<in> set (child_environment ?h cmd)" by (auto simp: prefix_def)
  then show ?thesis by blast
qed

text \<open>
  An empty pattern switches the blacklist off. When the first configured pattern is
  empty (and the deny globs of a policy are passed as patterns), the completed sandbox reports no
  violation for any command, the core patterns included.
\<close>
theorem empty_pattern_disables_blacklist:
  assumes "BlockedPatterns_sb c = '''' # ps"
  shows "checkBlacklist U (NewSandbox c) command = ''''"
  using assms by (simp add: checkBlacklist_def NewSandbox_patterns ToLower_def runes_def string_of_runes_def Let_def)

theorem empty_pattern_disables_blacklist_witness:
  "checkBlacklist ascii_only (NewSandbox (demo_cfg\<lparr>BlockedPatterns_sb := [''''] \<rparr>)) ''sudo rm -rf /'' = ''''"
  by (rule empty_pattern_disables_blacklist [of _ "[]"]) simp

end
