(* ===== verification/Process_Tree.thy ===== *)
theory Process_Tree
  imports Sandbox
begin

text \<open>
  \<^verbatim>\<open>proc_unix.go\<close> and \<^verbatim>\<open>proc_windows.go\<close>: how a command whose time is up is killed together
  with what it started. The processes of the machine are a list; each keeps its number, its
  process group, and the number of the started command it descends from. What processes
  do by themselves (fork, exit, move to another group) is the relation \<open>proc_step\<close>, the calls
  of the source are functions on the list.
\<close>

section \<open>Processes and the calls of the source\<close>

record process =
  Pid :: nat
  Group :: nat
  Tree :: nat

datatype kill_errno = ESRCH | EPERM

datatype cancel_error = ErrProcessDone | Errno kill_errno

text \<open>
  \<open>syscall.Kill\<close> on a group with \<open>SIGKILL\<close>: every member that may be signalled ends; \<open>may\<close> says
  which may. \<open>kill_process\<close> is \<^verbatim>\<open>Process.Kill\<close> of Windows, on one process.
\<close>

definition kill_group :: "(process \<Rightarrow> bool) \<Rightarrow> nat \<Rightarrow> process list \<Rightarrow> kill_errno option \<times> process list" where
  "kill_group may g ps =
     (let members = filter (\<lambda>p. Group p = g) ps in
      if members = [] then (Some ESRCH, ps)
      else if \<not> list_ex may members then (Some EPERM, ps)
      else (None, filter (\<lambda>p. \<not> (Group p = g \<and> may p)) ps))"

definition kill_process :: "(process \<Rightarrow> bool) \<Rightarrow> nat \<Rightarrow> process list \<Rightarrow> cancel_error option \<times> process list" where
  "kill_process may pid ps =
     (let targets = filter (\<lambda>p. Pid p = pid) ps in
      if targets = [] then (Some ErrProcessDone, ps)
      else if \<not> list_ex may targets then (Some (Errno EPERM), ps)
      else (None, filter (\<lambda>p. \<not> (Pid p = pid \<and> may p)) ps))"

definition cancelProcessTree_unix ::
    "(process \<Rightarrow> bool) \<Rightarrow> nat option \<Rightarrow> process list \<Rightarrow> cancel_error option \<times> process list"
where
  "cancelProcessTree_unix may process ps =
     (case process of
        None \<Rightarrow> (Some ErrProcessDone, ps)
      | Some pid \<Rightarrow>
          (case kill_group may pid ps of
             (err, ps') \<Rightarrow> if err = Some ESRCH then (Some ErrProcessDone, ps')
                           else (map_option Errno err, ps')))"

definition killProcessTree_unix :: "(process \<Rightarrow> bool) \<Rightarrow> nat option \<Rightarrow> process list \<Rightarrow> process list" where
  "killProcessTree_unix may process ps =
     (case process of None \<Rightarrow> ps | Some pid \<Rightarrow> snd (kill_group may pid ps))"

definition cancelProcessTree_windows ::
    "(process \<Rightarrow> bool) \<Rightarrow> nat option \<Rightarrow> process list \<Rightarrow> cancel_error option \<times> process list"
where
  "cancelProcessTree_windows may process ps =
     (case process of None \<Rightarrow> (Some ErrProcessDone, ps) | Some pid \<Rightarrow> kill_process may pid ps)"

definition killProcessTree_windows :: "(process \<Rightarrow> bool) \<Rightarrow> nat option \<Rightarrow> process list \<Rightarrow> process list" where
  "killProcessTree_windows may process ps =
     (case process of None \<Rightarrow> ps | Some pid \<Rightarrow> snd (kill_process may pid ps))"

section \<open>What processes do by themselves\<close>

text \<open>A number is free when no process and no group has it.\<close>

definition free_pid :: "nat \<Rightarrow> process list \<Rightarrow> bool" where
  "free_pid n ps \<longleftrightarrow> list_all (\<lambda>p. Pid p \<noteq> n \<and> Group p \<noteq> n) ps"

text \<open>
  The start of a command: a process of its own tree, in a group of its own when the command asks
  for one and in the group of paldron otherwise.
\<close>

definition start_process :: "nat \<Rightarrow> nat \<Rightarrow> cmd \<Rightarrow> process list \<Rightarrow> process list" where
  "start_process pid own_group c ps =
     ps @ [\<lparr>Pid = pid, Group = (if cmd_pgid c then pid else own_group), Tree = pid\<rparr>]"

text \<open>
  A fork copies group and tree under a free number. A process may leave its group for one of its
  own (\<open>setsid\<close>, \<open>setpgid\<close>) or for another one that exists; the group of a started command is
  joined from within its tree only, and \<open>leave\<close> tells whether members of the tree leave.
\<close>

inductive proc_step :: "nat \<Rightarrow> bool \<Rightarrow> process list \<Rightarrow> process list \<Rightarrow> bool" for root leave where
  fork: "q \<in> set ps \<Longrightarrow> free_pid n ps \<Longrightarrow> proc_step root leave ps (ps @ [q\<lparr>Pid := n\<rparr>])"
| exit: "proc_step root leave ps (filter (\<lambda>p. Pid p \<noteq> n) ps)"
| regroup: "q \<in> set ps \<Longrightarrow> Tree q \<noteq> root \<or> leave \<Longrightarrow>
     g = Pid q \<or> (g \<in> Group ` set ps \<and> (g \<noteq> root \<or> Tree q = root)) \<Longrightarrow>
     proc_step root leave ps (map (\<lambda>p. if p = q then q\<lparr>Group := g\<rparr> else p) ps)"

inductive proc_run :: "nat \<Rightarrow> bool \<Rightarrow> process list \<Rightarrow> process list \<Rightarrow> bool" for root leave ps where
  start: "proc_run root leave ps ps"
| step: "proc_run root leave ps qs \<Longrightarrow> proc_step root leave qs rs \<Longrightarrow> proc_run root leave ps rs"

section \<open>The tree and its group\<close>

text \<open>
  While members do not leave, the tree lies in the group of its root; and as long as one member
  runs, the group, and the number of the root, belong to the tree alone.
\<close>

definition tree_in_group :: "nat \<Rightarrow> process list \<Rightarrow> bool" where
  "tree_in_group root ps \<longleftrightarrow>
     (\<forall>p \<in> set ps. Tree p = root \<longrightarrow> Group p = root) \<and>
     ((\<exists>p \<in> set ps. Tree p = root) \<longrightarrow>
        (\<forall>p \<in> set ps. Group p = root \<or> Pid p = root \<longrightarrow> Tree p = root))"

lemma free_pid_iff: "free_pid n ps \<longleftrightarrow> (\<forall>p \<in> set ps. Pid p \<noteq> n \<and> Group p \<noteq> n)"
  by (simp add: free_pid_def list_all_iff)

lemma start_tree_in_group:
  "free_pid root ps \<Longrightarrow> \<forall>p \<in> set ps. Tree p \<noteq> root \<Longrightarrow> cmd_pgid c \<Longrightarrow>
     tree_in_group root (start_process root g c ps)"
  by (auto simp: tree_in_group_def start_process_def free_pid_iff)

lemma tree_in_groupI:
  assumes "\<And>p. p \<in> set ps \<Longrightarrow> Tree p = root \<Longrightarrow> Group p = root"
    and "\<And>r p. r \<in> set ps \<Longrightarrow> Tree r = root \<Longrightarrow> p \<in> set ps \<Longrightarrow> Group p = root \<or> Pid p = root \<Longrightarrow> Tree p = root"
  shows "tree_in_group root ps"
  using assms unfolding tree_in_group_def by blast

lemma tree_in_group_member: "tree_in_group root ps \<Longrightarrow> p \<in> set ps \<Longrightarrow> Tree p = root \<Longrightarrow> Group p = root"
  unfolding tree_in_group_def by blast

lemma tree_in_group_closed:
  "tree_in_group root ps \<Longrightarrow> r \<in> set ps \<Longrightarrow> Tree r = root \<Longrightarrow> p \<in> set ps \<Longrightarrow>
     Group p = root \<or> Pid p = root \<Longrightarrow> Tree p = root"
  unfolding tree_in_group_def by blast

lemma tree_in_group_subset: "tree_in_group root ps \<Longrightarrow> set qs \<subseteq> set ps \<Longrightarrow> tree_in_group root qs"
  unfolding tree_in_group_def by blast

lemma proc_step_tree_in_group:
  "proc_step root False ps qs \<Longrightarrow> tree_in_group root ps \<Longrightarrow> tree_in_group root qs"
proof (induction rule: proc_step.induct)
  case (fork q ps n)
  note inv = tree_in_group_member [OF fork(3)] tree_in_group_closed [OF fork(3)]
  show ?case
  proof (rule tree_in_groupI)
    fix p assume "p \<in> set (ps @ [q\<lparr>Pid := n\<rparr>])" "Tree p = root"
    then show "Group p = root" using inv(1) fork(1) by auto
  next
    fix r p assume r: "r \<in> set (ps @ [q\<lparr>Pid := n\<rparr>])" "Tree r = root"
      and p: "p \<in> set (ps @ [q\<lparr>Pid := n\<rparr>])" "Group p = root \<or> Pid p = root"
    from r fork(1) obtain r' where r': "r' \<in> set ps" "Tree r' = root" by auto
    then have "n \<noteq> root" using inv(1) fork(2) by (auto simp: free_pid_iff)
    moreover from p(1) have "p \<in> set ps \<or> p = q\<lparr>Pid := n\<rparr>" by auto
    ultimately show "Tree p = root"
      using p(2) inv(2) [OF r' fork(1)] inv(2) [OF r', of p] by (elim disjE) simp_all
  qed
next
  case (exit ps n)
  then show ?case by (rule tree_in_group_subset) auto
next
  case (regroup q ps g)
  note inv = tree_in_group_member [OF regroup(4)] tree_in_group_closed [OF regroup(4)]
  have q: "Tree q \<noteq> root" using regroup(2) by simp
  show ?case
  proof (rule tree_in_groupI)
    fix p assume "p \<in> set (map (\<lambda>p. if p = q then q\<lparr>Group := g\<rparr> else p) ps)" "Tree p = root"
    then show "Group p = root" using inv(1) q by (auto split: if_splits)
  next
    fix r p assume r: "r \<in> set (map (\<lambda>p. if p = q then q\<lparr>Group := g\<rparr> else p) ps)" "Tree r = root"
      and p: "p \<in> set (map (\<lambda>p. if p = q then q\<lparr>Group := g\<rparr> else p) ps)" "Group p = root \<or> Pid p = root"
    from r q have r': "r \<in> set ps" "Tree r = root" by (auto split: if_splits)
    from inv(2) [OF r' regroup(1)] regroup(3) q have "g \<noteq> root \<and> Pid q \<noteq> root" by blast
    with p inv(2) [OF r'] show "Tree p = root" by (auto split: if_splits)
  qed
qed

lemma proc_run_tree_in_group:
  "proc_run root False ps qs \<Longrightarrow> tree_in_group root ps \<Longrightarrow> tree_in_group root qs"
  by (induction rule: proc_run.induct) (auto intro: proc_step_tree_in_group)

lemma kill_group_left:
  assumes "\<forall>p \<in> set ps. may p"
  shows "snd (kill_group may g ps) = filter (\<lambda>p. Group p \<noteq> g) ps"
proof -
  have "filter (\<lambda>p. Group p \<noteq> g) ps = ps" if "filter (\<lambda>p. Group p = g) ps = []"
    using that by (simp add: filter_empty_conv)
  moreover have "list_ex may (filter (\<lambda>p. Group p = g) ps)" if "filter (\<lambda>p. Group p = g) ps \<noteq> []"
    using that assms by (auto simp: list_ex_iff filter_empty_conv)
  moreover have "filter (\<lambda>p. \<not> (Group p = g \<and> may p)) ps = filter (\<lambda>p. Group p \<noteq> g) ps"
    using assms by (auto intro: filter_cong)
  ultimately show ?thesis by (auto simp: kill_group_def Let_def)
qed

lemma prepare_group: "prepare U h P J s policyCommand parts dir roots = Inr c \<Longrightarrow> cmd_pgid c \<longleftrightarrow> GOOS h \<noteq> ''windows''"
  unfolding prepare_Inr by auto

lemma kill_group_tree:
  assumes "tree_in_group root ps" "p \<in> set ps" "Tree p = root" "\<forall>p \<in> set ps. Tree p = root \<longrightarrow> may p"
  shows "kill_group may root ps = (None, filter (\<lambda>p. Tree p \<noteq> root) ps)"
proof -
  have same: "Group q = root \<longleftrightarrow> Tree q = root" if "q \<in> set ps" for q
    using tree_in_group_member [OF assms(1) that] tree_in_group_closed [OF assms(1-3) that] by blast
  then have "filter (\<lambda>p. \<not> (Group p = root \<and> may p)) ps = filter (\<lambda>p. Tree p \<noteq> root) ps"
    using assms(4) by (intro filter_cong) auto
  moreover have "p \<in> set (filter (\<lambda>p. Group p = root) ps)" "may p"
    using assms(2-4) same [OF assms(2)] by auto
  then have "filter (\<lambda>p. Group p = root) ps \<noteq> []" "list_ex may (filter (\<lambda>p. Group p = root) ps)"
    by (auto simp: list_ex_iff filter_empty_conv)
  ultimately show ?thesis by (simp add: kill_group_def)
qed

lemma kill_group_leaves_no_tree:
  assumes "tree_in_group root ps" "\<forall>p \<in> set ps. Tree p = root \<longrightarrow> may p" "p \<in> set (snd (kill_group may root ps))"
  shows "Tree p \<noteq> root"
proof
  assume t: "Tree p = root"
  have "p \<in> set ps" using assms(3) by (auto simp: kill_group_def Let_def split: if_splits)
  from kill_group_tree [OF assms(1) this t assms(2)] assms(3) t show False by simp
qed

section \<open>Properties\<close>

text \<open>
  Property C24: on Unix, for a command that the sandbox prepared, whose descendants keep their group
  and may all be signalled: as long as one of them runs, the cancellation at the deadline and the
  final clean-up each end the whole tree and no other process, the cancellation without an error;
  and after the clean-up no process of the tree is left in any case.
\<close>
theorem timeout_kills_tree:
  assumes "prepare U h P J s policyCommand parts dir roots = Inr c" "GOOS h \<noteq> ''windows''"
    and "free_pid root ps" "\<forall>p \<in> set ps. Tree p \<noteq> root"
    and "proc_run root False (start_process root g c ps) qs" "\<forall>p \<in> set qs. Tree p = root \<longrightarrow> may p"
  shows "((\<exists>p \<in> set qs. Tree p = root) \<longrightarrow>
       cancelProcessTree_unix may (Some root) qs = (None, filter (\<lambda>p. Tree p \<noteq> root) qs) \<and>
       killProcessTree_unix may (Some root) qs = filter (\<lambda>p. Tree p \<noteq> root) qs) \<and>
     (\<forall>p \<in> set (killProcessTree_unix may (Some root) qs). Tree p \<noteq> root)"
proof -
  have "cmd_pgid c" using prepare_group [OF assms(1)] assms(2) by simp
  then have inv: "tree_in_group root qs"
    using proc_run_tree_in_group [OF assms(5) start_tree_in_group [OF assms(3,4)]] by simp
  have "cancelProcessTree_unix may (Some root) qs = (None, filter (\<lambda>p. Tree p \<noteq> root) qs) \<and>
      killProcessTree_unix may (Some root) qs = filter (\<lambda>p. Tree p \<noteq> root) qs"
    if "p \<in> set qs" "Tree p = root" for p
    by (simp add: cancelProcessTree_unix_def killProcessTree_unix_def kill_group_tree [OF inv that assms(6)])
  moreover have "Tree p \<noteq> root" if "p \<in> set (killProcessTree_unix may (Some root) qs)" for p
    using that kill_group_leaves_no_tree [OF inv assms(6)] by (simp add: killProcessTree_unix_def)
  ultimately show ?thesis by blast
qed

theorem timeout_kills_tree_witness:
  "cancelProcessTree_unix (\<lambda>_. True) (Some 5)
     [\<lparr>Pid = 1, Group = 1, Tree = 0\<rparr>, \<lparr>Pid = 5, Group = 5, Tree = 5\<rparr>, \<lparr>Pid = 6, Group = 5, Tree = 5\<rparr>] =
   (None, [\<lparr>Pid = 1, Group = 1, Tree = 0\<rparr>])"
proof -
  let ?p = "\<lparr>Pid = 1, Group = 1, Tree = 0\<rparr> :: process"
  let ?r = "\<lparr>Pid = 5, Group = 5, Tree = 5\<rparr> :: process"
  have free: "free_pid 5 [?p]" by (simp add: free_pid_def)
  have "proc_step 5 False [?p, ?r] ([?p, ?r] @ [?r\<lparr>Pid := 6\<rparr>])"
    by (rule proc_step.fork) (simp_all add: free_pid_def)
  then have run: "proc_run 5 False (start_process 5 1 \<lparr>cmd_name = ''/proc/self/exe'',
      cmd_args = [sandboxHelperArgument, EncodeToString (json_request demo_iso)], cmd_dir = ''/w'', cmd_env = demo_env, cmd_pgid = True\<rparr>
      [?p]) [?p, ?r, \<lparr>Pid = 6, Group = 5, Tree = 5\<rparr>]"
    by (auto simp: start_process_def intro: proc_run.intros)
  have "GOOS demo_host \<noteq> ''windows''" by (simp add: demo_host_def)
  from timeout_kills_tree [OF demo_prepare this free _ run, of "\<lambda>_. True"] show ?thesis by simp
qed

text \<open>
  Property C40: a descendant that moves to a group of its own outlives the timeout: the
  cancellation reports success and the final clean-up leaves the descendant running.
\<close>
theorem setsid_survives_timeout:
  assumes "prepare U h P J s policyCommand parts dir roots = Inr c" "GOOS h \<noteq> ''windows''"
    and "free_pid root ps" "free_pid n ps" "n \<noteq> root" "\<forall>p. may p"
  shows "\<exists>qs. proc_run root True (start_process root g c ps) qs \<and>
     fst (cancelProcessTree_unix may (Some root) qs) = None \<and>
     (\<exists>p \<in> set (killProcessTree_unix may (Some root) qs). Tree p = root)"
proof -
  have pg: "cmd_pgid c" using prepare_group [OF assms(1)] assms(2) by simp
  let ?r = "\<lparr>Pid = root, Group = root, Tree = root\<rparr>"
  let ?c = "\<lparr>Pid = n, Group = root, Tree = root\<rparr>"
  let ?d = "\<lparr>Pid = n, Group = n, Tree = root\<rparr>"
  have start: "start_process root g c ps = ps @ [?r]" by (simp add: start_process_def pg)
  have "proc_step root True (ps @ [?r]) ((ps @ [?r]) @ [?r\<lparr>Pid := n\<rparr>])"
    by (rule proc_step.fork) (use assms(4,5) in \<open>auto simp: free_pid_def\<close>)
  then have one: "proc_step root True (ps @ [?r]) (ps @ [?r, ?c])" by simp
  have keep: "map (\<lambda>p. if p = ?c then ?c\<lparr>Group := n\<rparr> else p) ps = ps"
    using assms(4) by (intro map_idI) (auto simp: free_pid_iff)
  have "proc_step root True (ps @ [?r, ?c]) (map (\<lambda>p. if p = ?c then ?c\<lparr>Group := n\<rparr> else p) (ps @ [?r, ?c]))"
    by (rule proc_step.regroup) auto
  then have two: "proc_step root True (ps @ [?r, ?c]) (ps @ [?r, ?d])"
    using keep assms(5) by simp
  have run: "proc_run root True (start_process root g c ps) (ps @ [?r, ?d])"
    unfolding start by (rule proc_run.step [OF proc_run.step [OF proc_run.start one] two])
  have "?d \<in> set (killProcessTree_unix may (Some root) (ps @ [?r, ?d]))"
    using assms(5,6) by (simp add: killProcessTree_unix_def kill_group_left)
  moreover have "fst (cancelProcessTree_unix may (Some root) (ps @ [?r, ?d])) = None"
    using assms(6) by (auto simp: cancelProcessTree_unix_def kill_group_def Let_def list_ex_iff)
  ultimately show ?thesis using run by force
qed

theorem setsid_survives_timeout_witness:
  "\<exists>qs. proc_run 5 True [\<lparr>Pid = 1, Group = 1, Tree = 0\<rparr>, \<lparr>Pid = 5, Group = 5, Tree = 5\<rparr>] qs \<and>
     fst (cancelProcessTree_unix (\<lambda>_. True) (Some 5) qs) = None \<and>
     (\<exists>p \<in> set (killProcessTree_unix (\<lambda>_. True) (Some 5) qs). Tree p = 5)"
proof -
  let ?p = "\<lparr>Pid = 1, Group = 1, Tree = 0\<rparr> :: process"
  have "free_pid 5 [?p]" "free_pid 6 [?p]" "GOOS demo_host \<noteq> ''windows''"
    by (simp_all add: free_pid_def demo_host_def)
  from setsid_survives_timeout [OF demo_prepare this(3,1,2), of "\<lambda>_. True" 1] show ?thesis
    by (simp add: start_process_def)
qed

text \<open>
  The clean-up signals by number after the command has been waited for. Once the tree has ended,
  the number is free, and a process outside the tree may have received it and made it its group:
  the clean-up then ends that process.
\<close>

lemma cleanup_ends_unrelated:
  assumes "cmd_pgid c" "free_pid root ps" "q \<in> set ps" "\<forall>p \<in> set ps. Tree p \<noteq> root" "\<forall>p. may p"
  shows "\<exists>qs. proc_run root False (start_process root g c ps) qs \<and>
     (\<exists>p \<in> set qs. Tree p \<noteq> root \<and> p \<notin> set (killProcessTree_unix may (Some root) qs))"
proof -
  let ?r = "\<lparr>Pid = root, Group = root, Tree = root\<rparr>"
  let ?n = "q\<lparr>Pid := root\<rparr>" and ?l = "q\<lparr>Pid := root, Group := root\<rparr>"
  have start: "start_process root g c ps = ps @ [?r]" by (simp add: start_process_def assms(1))
  have "filter (\<lambda>p. Pid p \<noteq> root) (ps @ [?r]) = ps"
    using assms(2) by (simp add: free_pid_iff filter_id_conv)
  then have one: "proc_step root False (ps @ [?r]) ps" using proc_step.exit by metis
  have two: "proc_step root False ps (ps @ [?n])" by (rule proc_step.fork [OF assms(3,2)])
  have keep: "map (\<lambda>p. if p = ?n then ?n\<lparr>Group := root\<rparr> else p) ps = ps"
    using assms(2) by (intro map_idI) (auto simp: free_pid_iff)
  have "proc_step root False (ps @ [?n]) (map (\<lambda>p. if p = ?n then ?n\<lparr>Group := root\<rparr> else p) (ps @ [?n]))"
    by (rule proc_step.regroup) (use assms(3,4) in auto)
  then have three: "proc_step root False (ps @ [?n]) (ps @ [?l])" using keep by simp
  have "proc_run root False (start_process root g c ps) (ps @ [?l])"
    unfolding start by (rule proc_run.step [OF proc_run.step [OF proc_run.step [OF proc_run.start one] two] three])
  moreover have "?l \<notin> set (killProcessTree_unix may (Some root) (ps @ [?l]))"
    using assms(5) by (simp add: killProcessTree_unix_def kill_group_left)
  ultimately show ?thesis using assms(3,4) by force
qed

text \<open>On Windows the child alone is ended; what it forked stays.\<close>

lemma windows_kills_child:
  "\<forall>p \<in> set ps. may p \<Longrightarrow> killProcessTree_windows may (Some root) ps = filter (\<lambda>p. Pid p \<noteq> root) ps"
  by (auto simp: killProcessTree_windows_def kill_process_def Let_def list_ex_iff filter_empty_conv
      intro!: filter_cong filter_id_conv [THEN iffD2, symmetric])

end
