(* ===== verification/Seccomp.thy ===== *)
theory Seccomp
  imports Prelude
begin

unbundle bit_operations_syntax

text \<open>
  The system-call filter of \<^verbatim>\<open>internal/sandbox/isolation_linux.go\<close>: the classic BPF program that
  \<^verbatim>\<open>seccompErrnoFilter\<close> assembles, an interpreter for it as the kernel documents it, and the
  list of denied calls. System-call and audit-architecture numbers come from
  \<^verbatim>\<open>golang.org/x/sys/unix\<close> and are arguments; the instruction and return codes are those of the
  Linux user-space interface.
\<close>

section \<open>Instructions\<close>

record SockFilter =
  Code :: "16 word"
  Jt :: "8 word"
  Jf :: "8 word"
  K :: u32

definition BPF_LD :: "16 word" where "BPF_LD = 0x00"
definition BPF_W :: "16 word" where "BPF_W = 0x00"
definition BPF_ABS :: "16 word" where "BPF_ABS = 0x20"
definition BPF_JMP :: "16 word" where "BPF_JMP = 0x05"
definition BPF_JEQ :: "16 word" where "BPF_JEQ = 0x10"
definition BPF_JGE :: "16 word" where "BPF_JGE = 0x30"
definition BPF_RET :: "16 word" where "BPF_RET = 0x06"
definition BPF_K :: "16 word" where "BPF_K = 0x00"

definition SECCOMP_RET_KILL_PROCESS :: u32 where "SECCOMP_RET_KILL_PROCESS = 0x80000000"
definition SECCOMP_RET_ERRNO :: u32 where "SECCOMP_RET_ERRNO = 0x00050000"
definition SECCOMP_RET_ALLOW :: u32 where "SECCOMP_RET_ALLOW = 0x7fff0000"
definition EPERM :: u32 where "EPERM = 1"

lemmas bpf_codes = BPF_LD_def BPF_W_def BPF_ABS_def BPF_JMP_def BPF_JEQ_def BPF_JGE_def BPF_RET_def BPF_K_def

lemmas seccomp_returns = SECCOMP_RET_KILL_PROCESS_def SECCOMP_RET_ERRNO_def SECCOMP_RET_ALLOW_def EPERM_def

text \<open>
  The kernel's side: the number and the architecture of a call, and the run of a filter on them.
  Jumps only go forward; running off the end, or an instruction not listed, gives no result.
\<close>

record seccomp_data =
  sd_nr :: u32
  sd_arch :: u32

function bpf_run :: "SockFilter list \<Rightarrow> u32 \<Rightarrow> seccomp_data \<Rightarrow> u32 option" where
  "bpf_run [] acc d = None"
| "bpf_run (i # is) acc d =
     (if Code i = BPF_LD OR BPF_W OR BPF_ABS then
        (if K i = 0 then bpf_run is (sd_nr d) d
         else if K i = 4 then bpf_run is (sd_arch d) d else None)
      else if Code i = BPF_JMP OR BPF_JEQ OR BPF_K then
        bpf_run (drop (unat (if acc = K i then Jt i else Jf i)) is) acc d
      else if Code i = BPF_JMP OR BPF_JGE OR BPF_K then
        bpf_run (drop (unat (if K i \<le> acc then Jt i else Jf i)) is) acc d
      else if Code i = BPF_RET OR BPF_K then Some (K i)
      else None)"
  by pat_completeness auto
termination by (relation "measure (\<lambda>(is, acc, d). length is)") auto

declare bpf_run.simps(2) [simp del]

definition load :: "u32 \<Rightarrow> SockFilter" where
  "load off = \<lparr>Code = BPF_LD OR BPF_W OR BPF_ABS, Jt = 0, Jf = 0, K = off\<rparr>"

definition jump_eq :: "8 word \<Rightarrow> 8 word \<Rightarrow> u32 \<Rightarrow> SockFilter" where
  "jump_eq jt jf k = \<lparr>Code = BPF_JMP OR BPF_JEQ OR BPF_K, Jt = jt, Jf = jf, K = k\<rparr>"

definition jump_ge :: "8 word \<Rightarrow> 8 word \<Rightarrow> u32 \<Rightarrow> SockFilter" where
  "jump_ge jt jf k = \<lparr>Code = BPF_JMP OR BPF_JGE OR BPF_K, Jt = jt, Jf = jf, K = k\<rparr>"

definition return :: "u32 \<Rightarrow> SockFilter" where
  "return k = \<lparr>Code = BPF_RET OR BPF_K, Jt = 0, Jf = 0, K = k\<rparr>"

lemma bpf_run_load:
  "bpf_run (load 0 # is) acc d = bpf_run is (sd_nr d) d"
  "bpf_run (load 4 # is) acc d = bpf_run is (sd_arch d) d"
  by (simp_all add: load_def bpf_run.simps(2))

lemma bpf_run_jump:
  "bpf_run (jump_eq jt jf k # is) acc d = bpf_run (drop (unat (if acc = k then jt else jf)) is) acc d"
  "bpf_run (jump_ge jt jf k # is) acc d = bpf_run (drop (unat (if k \<le> acc then jt else jf)) is) acc d"
  by (simp_all add: jump_eq_def jump_ge_def bpf_codes bpf_run.simps(2))

lemma bpf_run_return: "bpf_run (return k # is) acc d = Some k"
  by (simp add: return_def bpf_codes bpf_run.simps(2))

lemmas bpf_steps = bpf_run_load bpf_run_jump bpf_run_return

section \<open>The filter\<close>

definition seccompErrnoFilter :: "string \<Rightarrow> u64 list \<Rightarrow> u32 \<Rightarrow> SockFilter list" where
  "seccompErrnoFilter goarch syscalls auditArch =
     [load 4, jump_eq 1 0 auditArch, return SECCOMP_RET_KILL_PROCESS, load 0] @
     (if goarch = ''amd64'' then [jump_ge 0 1 0x40000000, return SECCOMP_RET_KILL_PROCESS] else []) @
     concat (map (\<lambda>number. [jump_eq 0 1 (ucast number), return (SECCOMP_RET_ERRNO OR EPERM)]) syscalls) @
     [return SECCOMP_RET_ALLOW]"

lemma run_denials:
  "bpf_run (concat (map (\<lambda>number. [jump_eq 0 1 (ucast number), return (SECCOMP_RET_ERRNO OR EPERM)]) syscalls)
      @ [return SECCOMP_RET_ALLOW]) acc d
   = Some (if acc \<in> (\<lambda>n. ucast (n :: u64)) ` set syscalls then SECCOMP_RET_ERRNO OR EPERM else SECCOMP_RET_ALLOW)"
  by (induction syscalls) (simp_all add: bpf_steps)

lemma run_filter:
  "bpf_run (seccompErrnoFilter goarch syscalls auditArch) acc d =
     Some (if sd_arch d \<noteq> auditArch then SECCOMP_RET_KILL_PROCESS
           else if goarch = ''amd64'' \<and> 0x40000000 \<le> sd_nr d then SECCOMP_RET_KILL_PROCESS
           else if sd_nr d \<in> (\<lambda>n. ucast (n :: u64)) ` set syscalls then SECCOMP_RET_ERRNO OR EPERM
           else SECCOMP_RET_ALLOW)"
proof (cases "sd_arch d = auditArch")
  case False
  then show ?thesis by (simp add: seccompErrnoFilter_def bpf_steps)
next
  case True
  then have "bpf_run (seccompErrnoFilter goarch syscalls auditArch) acc d =
     bpf_run ((if goarch = ''amd64'' then [jump_ge 0 1 0x40000000, return SECCOMP_RET_KILL_PROCESS] else []) @
       concat (map (\<lambda>number. [jump_eq 0 1 (ucast number), return (SECCOMP_RET_ERRNO OR EPERM)]) syscalls) @
       [return SECCOMP_RET_ALLOW]) (sd_nr d) d"
    by (simp add: seccompErrnoFilter_def bpf_steps)
  with True run_denials [of syscalls "sd_nr d" d] show ?thesis
    by (cases "goarch = ''amd64''"; cases "0x40000000 \<le> sd_nr d") (simp_all add: bpf_steps)
qed

lemma filter_length:
  "length (seccompErrnoFilter goarch syscalls auditArch) \<le> 7 + 2 * length syscalls"
  by (induction syscalls) (auto simp: seccompErrnoFilter_def)

section \<open>The denied calls\<close>

definition nativeAuditArchitecture :: "(string \<Rightarrow> u32) \<Rightarrow> string \<Rightarrow> (string, u32) result" where
  "nativeAuditArchitecture AUDIT_ARCH goarch =
     (if goarch = ''amd64'' then Inr (AUDIT_ARCH ''X86_64'')
      else if goarch = ''386'' then Inr (AUDIT_ARCH ''I386'')
      else if goarch = ''arm64'' then Inr (AUDIT_ARCH ''AARCH64'')
      else if goarch = ''arm'' then Inr (AUDIT_ARCH ''ARM'')
      else if goarch = ''riscv64'' then Inr (AUDIT_ARCH ''RISCV64'')
      else Inl (''seccomp architecture '' @ goarch @ '' is unsupported''))"

text \<open>
  The calls by name. Their numbers are an argument and taken to exist: a name for which
  \<^verbatim>\<open>golang.org/x/sys/unix\<close> has no constant on an architecture (\<^verbatim>\<open>SYS_CHMOD\<close> and others on arm64 and
  riscv64) is a compile error there, and then there is no program to speak of.
\<close>

definition always_denied :: "string list" where
  "always_denied = [''ptrace'', ''process_vm_readv'', ''process_vm_writev'', ''kill'', ''tkill'', ''tgkill'',
     ''pidfd_send_signal'', ''bpf'', ''perf_event_open'', ''userfaultfd'', ''io_uring_setup'', ''unshare'',
     ''setns'', ''mount'', ''umount2'', ''pivot_root'', ''chroot'', ''keyctl'', ''add_key'', ''request_key'',
     ''chmod'', ''fchmod'', ''fchmodat'', ''fchmodat2'', ''chown'', ''fchown'', ''lchown'', ''fchownat'',
     ''utime'', ''utimes'', ''futimesat'', ''utimensat'', ''setxattr'', ''lsetxattr'', ''fsetxattr'',
     ''removexattr'', ''lremovexattr'', ''fremovexattr'', ''setxattrat'', ''removexattrat'']"

definition network_denied :: "string list" where
  "network_denied = [''socket'', ''connect'', ''bind'', ''listen'', ''accept'', ''accept4'']"

definition blocked_syscalls :: "(string \<Rightarrow> u64) \<Rightarrow> string \<Rightarrow> bool \<Rightarrow> u64 list" where
  "blocked_syscalls SYS goarch allowNetwork =
     map SYS always_denied @
     (if goarch = ''386'' \<or> goarch = ''arm'' then [412] else []) @
     (if \<not> allowNetwork then map SYS network_denied else [])"

text \<open>The filter \<^verbatim>\<open>applySeccomp\<close> installs, or its error.\<close>

definition seccomp_program ::
    "(string \<Rightarrow> u64) \<Rightarrow> (string \<Rightarrow> u32) \<Rightarrow> string \<Rightarrow> bool \<Rightarrow> (string, SockFilter list) result"
where
  "seccomp_program SYS AUDIT_ARCH goarch allowNetwork =
     bind_result (nativeAuditArchitecture AUDIT_ARCH goarch)
       (\<lambda>auditArch. Inr (seccompErrnoFilter goarch (blocked_syscalls SYS goarch allowNetwork) auditArch))"

section \<open>Properties\<close>

text \<open>
  Property C6: the assembled program, run by the kernel's rules, always gives a verdict: it kills
  a call of another architecture, and of the x32 range on amd64; it answers \<^verbatim>\<open>EPERM\<close> exactly for
  the listed calls, and admits every other. It is short enough for its 16-bit length.
\<close>
theorem seccomp_filter_verdict:
  "bpf_run (seccompErrnoFilter goarch syscalls auditArch) acc d =
     Some (if sd_arch d = auditArch \<and> \<not> (goarch = ''amd64'' \<and> 0x40000000 \<le> sd_nr d)
           then (if \<exists>n \<in> set syscalls. sd_nr d = ucast n then SECCOMP_RET_ERRNO OR EPERM else SECCOMP_RET_ALLOW)
           else SECCOMP_RET_KILL_PROCESS) \<and>
   length (seccompErrnoFilter goarch (blocked_syscalls SYS goarch allowNetwork) auditArch) < 2 ^ 16"
proof
  show "bpf_run (seccompErrnoFilter goarch syscalls auditArch) acc d =
     Some (if sd_arch d = auditArch \<and> \<not> (goarch = ''amd64'' \<and> 0x40000000 \<le> sd_nr d)
           then (if \<exists>n \<in> set syscalls. sd_nr d = ucast n then SECCOMP_RET_ERRNO OR EPERM else SECCOMP_RET_ALLOW)
           else SECCOMP_RET_KILL_PROCESS)"
    unfolding run_filter image_iff by (cases "sd_arch d = auditArch"; cases "goarch = ''amd64''"; cases "0x40000000 \<le> sd_nr d") simp_all
  have "length (blocked_syscalls SYS goarch allowNetwork) \<le> 47"
    by (simp add: blocked_syscalls_def always_denied_def network_denied_def)
  then show "length (seccompErrnoFilter goarch (blocked_syscalls SYS goarch allowNetwork) auditArch) < 2 ^ 16"
    using filter_length [of goarch "blocked_syscalls SYS goarch allowNetwork" auditArch] by simp
qed

text \<open>
  Property C34: without network access, a process under the installed filter gets \<^verbatim>\<open>EPERM\<close> (or is
  killed) when it asks for a socket, connects, binds, listens or accepts, and whatever the
  policy when it traces, signals, mounts, changes modes, owners, times or extended attributes.
\<close>
theorem seccomp_denies:
  assumes "seccomp_program SYS AUDIT_ARCH goarch allowNetwork = Inr f"
    and "name \<in> set always_denied \<or> (\<not> allowNetwork \<and> name \<in> set network_denied)"
    and "sd_nr d = ucast (SYS name)"
  shows "bpf_run f 0 d \<in> {Some (SECCOMP_RET_ERRNO OR EPERM), Some SECCOMP_RET_KILL_PROCESS}"
proof -
  from assms(1) obtain a where f: "f = seccompErrnoFilter goarch (blocked_syscalls SYS goarch allowNetwork) a"
    by (auto simp: seccomp_program_def bind_result_Inr)
  have "SYS name \<in> set (blocked_syscalls SYS goarch allowNetwork)"
    using assms(2) by (auto simp: blocked_syscalls_def)
  then have "sd_nr d \<in> (\<lambda>n. ucast n) ` set (blocked_syscalls SYS goarch allowNetwork)"
    unfolding assms(3) by (rule imageI)
  then show ?thesis unfolding f run_filter by simp
qed

theorem seccomp_denies_witness:
  "\<exists>f. seccomp_program (\<lambda>_. 41) (\<lambda>_. 0xC000003E) ''amd64'' False = Inr f \<and>
     bpf_run f 0 \<lparr>sd_nr = 41, sd_arch = 0xC000003E\<rparr> \<in> {Some (SECCOMP_RET_ERRNO OR EPERM), Some SECCOMP_RET_KILL_PROCESS}"
proof -
  obtain f where f: "seccomp_program (\<lambda>_. 41) (\<lambda>_. 0xC000003E) ''amd64'' False = Inr f"
    by (simp add: seccomp_program_def nativeAuditArchitecture_def)
  moreover have "bpf_run f 0 \<lparr>sd_nr = 41, sd_arch = 0xC000003E\<rparr> \<in> {Some (SECCOMP_RET_ERRNO OR EPERM), Some SECCOMP_RET_KILL_PROCESS}"
    by (rule seccomp_denies [OF f, of "''socket''"]) (simp_all add: network_denied_def)
  ultimately show ?thesis by blast
qed

text \<open>
  On 386, where every socket operation can also be made through \<^verbatim>\<open>socketcall\<close>, the
  filter for a policy without network admits that call.
\<close>
theorem seccomp_admits_socketcall:
  assumes "seccomp_program SYS AUDIT_ARCH ''386'' False = Inr f"
    and "sd_arch d = AUDIT_ARCH ''I386''" "sd_nr d = ucast (SYS ''socketcall'')" "sd_nr d \<noteq> 412"
    and "\<forall>name \<in> set (always_denied @ network_denied). sd_nr d \<noteq> ucast (SYS name)"
  shows "bpf_run f 0 d = Some SECCOMP_RET_ALLOW"
proof -
  have "f = seccompErrnoFilter ''386'' (blocked_syscalls SYS ''386'' False) (AUDIT_ARCH ''I386'')"
    using assms(1) by (simp add: seccomp_program_def nativeAuditArchitecture_def)
  moreover have "sd_nr d \<notin> (\<lambda>n. ucast n) ` set (blocked_syscalls SYS ''386'' False)"
    using assms(4,5) by (auto simp: blocked_syscalls_def)
  ultimately show ?thesis using assms(2) by (simp add: run_filter)
qed

theorem seccomp_admits_socketcall_witness:
  "\<exists>f. seccomp_program (\<lambda>n. if n = ''socketcall'' then 102 else 1) (\<lambda>_. 0x40000003) ''386'' False = Inr f \<and>
     bpf_run f 0 \<lparr>sd_nr = 102, sd_arch = 0x40000003\<rparr> = Some SECCOMP_RET_ALLOW"
proof -
  let ?SYS = "\<lambda>n. if n = ''socketcall'' then 102 else 1 :: u64"
  obtain f where f: "seccomp_program ?SYS (\<lambda>_. 0x40000003) ''386'' False = Inr f"
    by (simp add: seccomp_program_def nativeAuditArchitecture_def)
  have "''socketcall'' \<notin> set (always_denied @ network_denied)"
    by (simp add: always_denied_def network_denied_def)
  then have "\<forall>name \<in> set (always_denied @ network_denied). (102 :: u32) \<noteq> ucast (?SYS name)" by auto
  then have "bpf_run f 0 \<lparr>sd_nr = 102, sd_arch = 0x40000003\<rparr> = Some SECCOMP_RET_ALLOW"
    by (intro seccomp_admits_socketcall [OF f]) simp_all
  with f show ?thesis by blast
qed

end
