(* ===== verification/Landlock.thy ===== *)
theory Landlock
  imports Host
begin

unbundle bit_operations_syntax

text \<open>
  The file-system side of \<^verbatim>\<open>internal/sandbox/isolation_linux.go\<close>: the access rights, the
  canonicalisation of the roots, the runtime paths, the checks on a request, and the rules that
  \<^verbatim>\<open>applyLandlock\<close> collects. What a ruleset admits is modelled as the kernel documents it.
  A right not yet known to the kernel's interface is not handled; the bit values are those of
  the Linux user-space interface.
\<close>

section \<open>Access rights\<close>

definition FS_EXECUTE :: u64 where "FS_EXECUTE = 0x0001"
definition FS_WRITE_FILE :: u64 where "FS_WRITE_FILE = 0x0002"
definition FS_READ_FILE :: u64 where "FS_READ_FILE = 0x0004"
definition FS_READ_DIR :: u64 where "FS_READ_DIR = 0x0008"
definition FS_REMOVE_DIR :: u64 where "FS_REMOVE_DIR = 0x0010"
definition FS_REMOVE_FILE :: u64 where "FS_REMOVE_FILE = 0x0020"
definition FS_MAKE_CHAR :: u64 where "FS_MAKE_CHAR = 0x0040"
definition FS_MAKE_DIR :: u64 where "FS_MAKE_DIR = 0x0080"
definition FS_MAKE_REG :: u64 where "FS_MAKE_REG = 0x0100"
definition FS_MAKE_SOCK :: u64 where "FS_MAKE_SOCK = 0x0200"
definition FS_MAKE_FIFO :: u64 where "FS_MAKE_FIFO = 0x0400"
definition FS_MAKE_BLOCK :: u64 where "FS_MAKE_BLOCK = 0x0800"
definition FS_MAKE_SYM :: u64 where "FS_MAKE_SYM = 0x1000"
definition FS_REFER :: u64 where "FS_REFER = 0x2000"
definition FS_TRUNCATE :: u64 where "FS_TRUNCATE = 0x4000"
definition NET_BIND_TCP :: u64 where "NET_BIND_TCP = 1"
definition NET_CONNECT_TCP :: u64 where "NET_CONNECT_TCP = 2"

lemmas access_bits = FS_EXECUTE_def FS_WRITE_FILE_def FS_READ_FILE_def FS_READ_DIR_def FS_REMOVE_DIR_def
  FS_REMOVE_FILE_def FS_MAKE_CHAR_def FS_MAKE_DIR_def FS_MAKE_REG_def FS_MAKE_SOCK_def FS_MAKE_FIFO_def
  FS_MAKE_BLOCK_def FS_MAKE_SYM_def FS_REFER_def FS_TRUNCATE_def NET_BIND_TCP_def NET_CONNECT_TCP_def

definition handledFilesystemAccess :: "int \<Rightarrow> u64" where
  "handledFilesystemAccess abi =
     (let access = FS_EXECUTE OR FS_WRITE_FILE OR FS_READ_FILE OR FS_READ_DIR OR FS_REMOVE_DIR OR
          FS_REMOVE_FILE OR FS_MAKE_CHAR OR FS_MAKE_DIR OR FS_MAKE_REG OR FS_MAKE_SOCK OR
          FS_MAKE_FIFO OR FS_MAKE_BLOCK OR FS_MAKE_SYM;
          access = (if 2 \<le> abi then access OR FS_REFER else access)
      in if 3 \<le> abi then access OR FS_TRUNCATE else access)"

definition readonlyAccess :: u64 where
  "readonlyAccess = FS_EXECUTE OR FS_READ_FILE OR FS_READ_DIR"

definition deviceAccess :: u64 where
  "deviceAccess = FS_READ_FILE OR FS_WRITE_FILE"

section \<open>The Linux host\<close>

datatype errno = ENOENT | EOTHER

record linux_host = host +
  landlock_abi :: "int option"
  SelfExe :: bool
  GlobPaths :: "string \<Rightarrow> string list"
  GoEnvRoot :: "string \<Rightarrow> string option"
  LookPath :: "string \<Rightarrow> string option"
  AddRule :: "string \<Rightarrow> u64 \<Rightarrow> errno option"

text \<open>
  \<open>landlock_abi\<close> is the version Landlock reports, \<open>GlobPaths\<close> is \<^verbatim>\<open>filepath.Glob\<close>, \<open>GoEnvRoot\<close> the output of
  \<^verbatim>\<open>go env GOROOT\<close>, and \<open>AddRule\<close> the error of opening a path and adding it to a ruleset.
\<close>

definition linux_isolationSupported :: "('a linux_host_scheme) \<Rightarrow> bool \<Rightarrow> string option" where
  "linux_isolationSupported h allowNetwork =
     (case landlock_abi h of
        None \<Rightarrow> Some ''Landlock unavailable''
      | Some v \<Rightarrow>
          if v < 3 then Some (''Landlock ABI '' @ int_dec v @ '' is too old; ABI 3 or newer is required'')
          else if \<not> allowNetwork \<and> v < 4 then
            Some (''Landlock ABI '' @ int_dec v @ '' cannot enforce TCP network denial; ABI 4 or newer is required'')
          else None)"

definition linux_isolationHelperPath :: "('a linux_host_scheme) \<Rightarrow> (string, string) result" where
  "linux_isolationHelperPath h =
     (if \<not> SelfExe h then Inl ''resolve /proc/self/exe'' else Inr ''/proc/self/exe'')"

section \<open>Canonical roots\<close>

text \<open>One path: skipped when empty, when its home is unknown or when it does not resolve.\<close>

definition canonical_path :: "('a host_scheme) \<Rightarrow> string \<Rightarrow> string option" where
  "canonical_path h path =
     (if path = '''' then None
      else
        (case (if HasPrefix path (''~'' @ [slash])
               then map_option (\<lambda>home. Join [home, drop 2 path]) (UserHomeDir h)
               else Some path) of
           None \<Rightarrow> None
         | Some expanded \<Rightarrow>
             (case EvalSymlinks h expanded of
                None \<Rightarrow> None
              | Some resolved \<Rightarrow> AbsPath h resolved)))"

fun canonical_loop :: "('a host_scheme) \<Rightarrow> string list \<Rightarrow> string list \<Rightarrow> string list" where
  "canonical_loop h seen [] = []"
| "canonical_loop h seen (path # paths) =
     (case canonical_path h path of
        None \<Rightarrow> canonical_loop h seen paths
      | Some resolved \<Rightarrow>
          if resolved \<in> set seen then canonical_loop h seen paths
          else resolved # canonical_loop h (resolved # seen) paths)"

definition canonicalExistingPaths :: "('a host_scheme) \<Rightarrow> string list \<Rightarrow> string list" where
  "canonicalExistingPaths h paths = canonical_loop h [] paths"

lemma canonical_loop_set:
  "set (canonical_loop h seen paths) = {r. \<exists>p \<in> set paths. canonical_path h p = Some r} - set seen"
  by (induction paths arbitrary: seen) (auto split: option.splits)

lemma canonical_loop_distinct: "distinct (canonical_loop h seen paths)"
  by (induction paths arbitrary: seen) (auto simp: canonical_loop_set split: option.splits)

lemma set_canonicalExistingPaths:
  "r \<in> set (canonicalExistingPaths h paths) \<longleftrightarrow> (\<exists>p \<in> set paths. canonical_path h p = Some r)"
  by (simp add: canonicalExistingPaths_def canonical_loop_set)


lemma distinct_canonical: "distinct (canonicalExistingPaths h paths)"
  by (simp add: canonicalExistingPaths_def canonical_loop_distinct)

definition readonlyRuntimePaths :: "('a linux_host_scheme) \<Rightarrow> string \<Rightarrow> string \<Rightarrow> string list" where
  "readonlyRuntimePaths h commandPath invocationPath =
     (let paths = [''/usr'', ''/bin'', ''/lib'', ''/lib64'',
            ''/etc/ld.so.cache'', ''/etc/ld.so.conf'', ''/etc/ld.so.conf.d'',
            ''/etc/nsswitch.conf'', ''/etc/hosts'', ''/etc/resolv.conf'',
            ''/etc/passwd'', ''/etc/group'', ''/etc/localtime'', ''/etc/gitconfig'',
            ''/etc/ssl'', ''/etc/ca-certificates'', commandPath];
          paths = paths @ (if invocationPath \<noteq> commandPath then [invocationPath] else []);
          venvRoot = Dir (Dir invocationPath);
          paths = paths @ (if StatDir h (Join [venvRoot, ''pyvenv.cfg'']) \<noteq> None then [venvRoot] else []);
          paths = paths @ GlobPaths h ''/etc/python*'';
          paths = paths @ map (Getenv h) [''GOROOT'', ''RUSTUP_HOME'', ''NODE_PATH''];
          paths = paths @ (if Base commandPath = ''go'' then
              (case GoEnvRoot h commandPath of
                 Some out \<Rightarrow> if IsAbs (TrimSpace out) then [TrimSpace out] else []
               | None \<Rightarrow> []) else []);
          goPath = Getenv h ''GOPATH'';
          paths = paths @ (if goPath \<noteq> '''' then
              concat (map (\<lambda>root. [Join [root, ''bin''], Join [root, ''pkg'', ''mod'']])
                (Split goPath (CHR '':''))) else [])
      in canonicalExistingPaths h paths)"

section \<open>The request on its host\<close>

definition validateIsolationPaths ::
    "('a host_scheme) \<Rightarrow> isolationRequest \<Rightarrow> (string, isolationRequest) result"
where
  "validateIsolationPaths h request =
     (let allowed = canonicalExistingPaths h (AllowedDirs_req request) in
      if length allowed = 0 then Inl ''no existing allowed directories''
      else
        (case EvalSymlinks h (WorkingDir_req request) of
           None \<Rightarrow> Inl ''resolve working directory''
         | Some resolved \<Rightarrow>
             (case AbsPath h resolved of
                None \<Rightarrow> Inl ''canonicalize working directory''
              | Some workingDir \<Rightarrow>
                  if \<not> list_ex (\<lambda>root. pathWithin workingDir root) allowed
                  then Inl ''working directory is outside the allowed roots''
                  else Inr (request\<lparr>AllowedDirs_req := allowed,
                    ReadOnlyDirs_req := canonicalExistingPaths h (ReadOnlyDirs_req request),
                    WorkingDir_req := workingDir\<rparr>))))"

section \<open>The ruleset\<close>

record ruleset =
  handled_fs :: u64
  handled_net :: u64
  rules :: "(string \<times> u64) list"

definition device_paths :: "string list" where
  "device_paths = [''/dev/null'', ''/dev/zero'', ''/dev/random'', ''/dev/urandom'']"

text \<open>Adding rules one by one; \<open>tolerate\<close> says which errors the loop passes over.\<close>

fun add_rules ::
    "('a linux_host_scheme) \<Rightarrow> (errno \<Rightarrow> bool) \<Rightarrow> string \<Rightarrow> (string \<times> u64) list \<Rightarrow>
     (string \<times> u64) list \<Rightarrow> (string, (string \<times> u64) list) result"
where
  "add_rules h tolerate what acc [] = Inr acc"
| "add_rules h tolerate what acc ((path, access) # rs) =
     (case AddRule h path access of
        None \<Rightarrow> add_rules h tolerate what (acc @ [(path, access)]) rs
      | Some e \<Rightarrow> if tolerate e then add_rules h tolerate what acc rs
                 else Inl (''allow '' @ what @ '' '' @ path))"

definition runtime_rule :: "('a host_scheme) \<Rightarrow> string \<Rightarrow> string \<times> u64" where
  "runtime_rule h path =
     (path, if StatDir h path = Some False then FS_EXECUTE OR FS_READ_FILE else readonlyAccess)"

definition network_access :: "bool \<Rightarrow> u64" where
  "network_access allowNetwork = (if \<not> allowNetwork then NET_BIND_TCP OR NET_CONNECT_TCP else 0)"

text \<open>The ruleset \<^verbatim>\<open>applyLandlock\<close> has built when it comes to restrict the process.\<close>

definition landlock_ruleset ::
    "('a linux_host_scheme) \<Rightarrow> isolationRequest \<Rightarrow> string \<Rightarrow> string \<Rightarrow> (string, ruleset) result"
where
  "landlock_ruleset h request commandPath invocationPath =
     (case landlock_abi h of
        None \<Rightarrow> Inl ''Landlock unavailable''
      | Some v \<Rightarrow>
          let filesystemAccess = handledFilesystemAccess v in
          bind_result (add_rules h (\<lambda>_. False) ''runtime path'' []
              (map (runtime_rule h) (readonlyRuntimePaths h commandPath invocationPath))) (\<lambda>r1.
          bind_result (add_rules h (\<lambda>_. False) ''workspace path'' r1
              (map (\<lambda>path. (path, filesystemAccess)) (AllowedDirs_req request))) (\<lambda>r2.
          bind_result (add_rules h (\<lambda>_. False) ''read-only path'' r2
              (map (\<lambda>path. (path, readonlyAccess)) (ReadOnlyDirs_req request))) (\<lambda>r3.
          bind_result (add_rules h (\<lambda>e. e = ENOENT) ''device'' r3
              (map (\<lambda>path. (path, deviceAccess)) device_paths)) (\<lambda>r4.
          Inr \<lparr>handled_fs = filesystemAccess, handled_net = network_access (AllowNetwork_req request), rules = r4\<rparr>)))))"

text \<open>
  The kernel's decision: an access to a file is granted when every handled right in it is
  granted by the rules for the file's ancestors together; a handled network right is granted by
  no rule here, since none is ever added.
\<close>

definition granted :: "ruleset \<Rightarrow> string \<Rightarrow> u64" where
  "granted rs path = foldr (\<lambda>(root, access) g. (if below root path then access else 0) OR g) (rules rs) 0"

definition fs_permits :: "ruleset \<Rightarrow> string \<Rightarrow> u64 \<Rightarrow> bool" where
  "fs_permits rs path access \<longleftrightarrow> access AND handled_fs rs AND NOT (granted rs path) = 0"

definition net_permits :: "ruleset \<Rightarrow> u64 \<Rightarrow> bool" where
  "net_permits rs access \<longleftrightarrow> access AND handled_net rs = 0"

section \<open>What the rules add up to\<close>

lemma add_rules_Inr:
  "add_rules h tolerate what acc rs = Inr out \<Longrightarrow> \<exists>kept. out = acc @ kept \<and> set kept \<subseteq> set rs"
proof (induction h tolerate what acc rs rule: add_rules.induct)
  case (2 h tolerate what acc path access rs)
  show ?case
  proof (cases "AddRule h path access")
    case None
    with 2(1,3) obtain kept where "out = (acc @ [(path, access)]) @ kept" "set kept \<subseteq> set rs" by auto
    then show ?thesis by (intro exI [of _ "(path, access) # kept"]) auto
  next
    case (Some e)
    with 2(2) [OF Some] 2(3) obtain kept where "out = acc @ kept" "set kept \<subseteq> set rs"
      by (auto split: if_splits)
    then show ?thesis by auto
  qed
qed auto

lemma add_rules_all:
  "add_rules h (\<lambda>_. False) what acc rs = Inr out \<Longrightarrow> out = acc @ rs"
  by (induction h "\<lambda>_ :: errno. False" what acc rs rule: add_rules.induct) (auto split: option.splits)

lemma landlock_ruleset_Inr:
  assumes "landlock_ruleset h request commandPath invocationPath = Inr rs"
  obtains v devs where "landlock_abi h = Some v" "handled_fs rs = handledFilesystemAccess v"
    "handled_net rs = network_access (AllowNetwork_req request)"
    "rules rs = map (runtime_rule h) (readonlyRuntimePaths h commandPath invocationPath) @
       map (\<lambda>path. (path, handledFilesystemAccess v)) (AllowedDirs_req request) @
       map (\<lambda>path. (path, readonlyAccess)) (ReadOnlyDirs_req request) @ devs"
    "set devs \<subseteq> (\<lambda>path. (path, deviceAccess)) ` set device_paths"
proof -
  from assms obtain v r4 where v: "landlock_abi h = Some v"
    and r4: "add_rules h (\<lambda>e. e = ENOENT) ''device''
       ((map (runtime_rule h) (readonlyRuntimePaths h commandPath invocationPath) @
         map (\<lambda>path. (path, handledFilesystemAccess v)) (AllowedDirs_req request)) @
         map (\<lambda>path. (path, readonlyAccess)) (ReadOnlyDirs_req request))
       (map (\<lambda>path. (path, deviceAccess)) device_paths) = Inr r4"
    and rs: "rs = \<lparr>handled_fs = handledFilesystemAccess v, handled_net = network_access (AllowNetwork_req request), rules = r4\<rparr>"
    unfolding landlock_ruleset_def
    by (auto simp: bind_result_Inr Let_def split: option.splits dest!: add_rules_all)
  from add_rules_Inr [OF r4] obtain devs where "r4 = (map (runtime_rule h) (readonlyRuntimePaths h commandPath invocationPath) @
         map (\<lambda>path. (path, handledFilesystemAccess v)) (AllowedDirs_req request)) @
         map (\<lambda>path. (path, readonlyAccess)) (ReadOnlyDirs_req request) @ devs"
      "set devs \<subseteq> (\<lambda>path. (path, deviceAccess)) ` set device_paths"
    by auto
  with that v rs show ?thesis by simp
qed

lemma mask_iff: "a AND NOT m = 0 \<longleftrightarrow> (\<forall>n. bit a n \<longrightarrow> bit m n)" for a m :: u64
proof -
  have "n < 64" if "bit a n" for n using bit_imp_le_length [OF that] by simp
  then show ?thesis by (auto simp: bit_eq_iff bit_simps)
qed

lemma granted_bit: "bit (granted rs path) n \<longleftrightarrow> (\<exists>(root, access) \<in> set (rules rs). below root path \<and> bit access n)"
proof -
  have "bit (foldr (\<lambda>(root, access) g. (if below root path then access else 0) OR g) xs 0) n
      \<longleftrightarrow> (\<exists>(root, access) \<in> set xs. below root path \<and> bit access n)" for xs :: "(string \<times> u64) list"
  proof (induction xs)
    case (Cons x xs)
    then show ?case by (cases x) (simp add: bit_simps)
  qed simp
  then show ?thesis by (simp add: granted_def)
qed

lemma fs_permits_bits:
  "fs_permits rs path access \<longleftrightarrow> (\<forall>n. bit access n \<and> bit (handled_fs rs) n \<longrightarrow> bit (granted rs path) n)"
  unfolding fs_permits_def and.assoc [symmetric] mask_iff by (simp add: bit_simps)

lemma runtime_rule_bits: "bit (snd (runtime_rule h path)) n \<Longrightarrow> bit readonlyAccess n"
  by (auto simp: runtime_rule_def readonlyAccess_def bit_simps split: if_splits)

lemma handled_abi3: "3 \<le> v \<Longrightarrow> handledFilesystemAccess v = 0x7FFF"
  by (simp add: handledFilesystemAccess_def access_bits)

section \<open>Properties\<close>


text \<open>What the rules of an accepted ruleset grant, and where.\<close>

lemma readonly_rights: "bit readonlyAccess n \<Longrightarrow> bit (FS_EXECUTE OR FS_READ_FILE OR FS_READ_DIR) n"
  by (simp add: readonlyAccess_def)

lemma ruleset_entry:
  assumes "landlock_ruleset h request commandPath invocationPath = Inr rs" and "(root, a) \<in> set (rules rs)"
  obtains (runtime) p where "p \<in> set (readonlyRuntimePaths h commandPath invocationPath)" "(root, a) = runtime_rule h p"
  | (allowed) "root \<in> set (AllowedDirs_req request)" "a = handled_fs rs"
  | (readonly) "root \<in> set (ReadOnlyDirs_req request)" "a = readonlyAccess"
  | (device) "root \<in> set device_paths"
  by (rule landlock_ruleset_Inr [OF assms(1)]) (use assms(2) in auto)

lemma ruleset_roots:
  assumes "landlock_ruleset h request commandPath invocationPath = Inr rs" and "(root, a) \<in> set (rules rs)"
  shows "root \<in> set (readonlyRuntimePaths h commandPath invocationPath @ AllowedDirs_req request @
     ReadOnlyDirs_req request @ device_paths)"
  using assms(2) by (cases rule: ruleset_entry [OF assms]) (auto simp: runtime_rule_def)

lemma ruleset_writes:
  assumes "landlock_ruleset h request commandPath invocationPath = Inr rs" and "(root, a) \<in> set (rules rs)"
    and "bit a n" "\<not> bit (FS_EXECUTE OR FS_READ_FILE OR FS_READ_DIR) n"
  shows "root \<in> set (AllowedDirs_req request @ device_paths)"
proof -
  have ro: "\<not> bit readonlyAccess n" using assms(4) readonly_rights by blast
  then have "(root, a) \<noteq> runtime_rule h p" for p
    using runtime_rule_bits [of h p n] assms(3) by (metis snd_conv)
  with ro assms(3) show ?thesis by (cases rule: ruleset_entry [OF assms(1,2)]) auto
qed

lemma ruleset_full:
  assumes "landlock_ruleset h request commandPath invocationPath = Inr rs" and "root \<in> set (AllowedDirs_req request)"
  shows "(root, handled_fs rs) \<in> set (rules rs)"
  by (rule landlock_ruleset_Inr [OF assms(1)]) (use assms(2) in auto)

lemma ruleset_no_tcp:
  assumes "landlock_ruleset h request commandPath invocationPath = Inr rs" and "\<not> AllowNetwork_req request"
  shows "\<not> net_permits rs NET_BIND_TCP \<and> \<not> net_permits rs NET_CONNECT_TCP"
  by (rule landlock_ruleset_Inr [OF assms(1)])
    (use assms(2) in \<open>simp add: net_permits_def network_access_def access_bits\<close>)

lemma permits_rule:
  assumes "fs_permits rs path access" "bit access n" "bit (handled_fs rs) n"
  obtains root a where "(root, a) \<in> set (rules rs)" "below root path" "bit a n"
  using assms by (auto simp: fs_permits_bits granted_bit)

text \<open>
  Property C5: under the collected rules, an access that asks for a handled right and for none
  of reading a file, listing a directory and executing is granted only below an allowed root or
  a device; any access at all only below a path of the rules; everything handled is granted
  below an allowed root; and without network no TCP bind or connect is.
\<close>
theorem landlock_confines:
  assumes "landlock_ruleset h request commandPath invocationPath = Inr rs"
    and "access AND handled_fs rs \<noteq> 0"
  shows "(fs_permits rs path access \<longrightarrow> access AND (FS_EXECUTE OR FS_READ_FILE OR FS_READ_DIR) = 0 \<longrightarrow>
       (\<exists>root \<in> set (AllowedDirs_req request @ device_paths). below root path)) \<and>
     (fs_permits rs path access \<longrightarrow>
       (\<exists>root \<in> set (readonlyRuntimePaths h commandPath invocationPath @ AllowedDirs_req request @
          ReadOnlyDirs_req request @ device_paths). below root path)) \<and>
     ((\<exists>root \<in> set (AllowedDirs_req request). below root path) \<longrightarrow> fs_permits rs path access) \<and>
     (\<not> AllowNetwork_req request \<longrightarrow> \<not> net_permits rs NET_BIND_TCP \<and> \<not> net_permits rs NET_CONNECT_TCP)"
proof -
  obtain n where n: "bit access n" "bit (handled_fs rs) n"
    using assms(2) by (auto simp: bit_eq_iff bit_simps)
  have writes: "\<exists>root \<in> set (AllowedDirs_req request @ device_paths). below root path"
    if p: "fs_permits rs path access" and "access AND (FS_EXECUTE OR FS_READ_FILE OR FS_READ_DIR) = 0"
  proof -
    have "\<not> bit (FS_EXECUTE OR FS_READ_FILE OR FS_READ_DIR) n"
      using that(2) n(1) by (metis bit_0_eq bit_and_iff bot_apply bot_bool_def)
    with permits_rule [OF p n] ruleset_writes [OF assms(1)] show ?thesis by metis
  qed
  have roots: "\<exists>root \<in> set (readonlyRuntimePaths h commandPath invocationPath @ AllowedDirs_req request @
      ReadOnlyDirs_req request @ device_paths). below root path" if "fs_permits rs path access"
    using permits_rule [OF that n] ruleset_roots [OF assms(1)] by metis
  have full: "fs_permits rs path access" if "\<exists>root \<in> set (AllowedDirs_req request). below root path"
    using that ruleset_full [OF assms(1)] unfolding fs_permits_bits granted_bit by blast
  show ?thesis using writes roots full ruleset_no_tcp [OF assms(1)] by blast
qed

text \<open>A host on which nothing but the workspace and one program in it resolve.\<close>

definition demo_linux :: linux_host where
  "demo_linux = \<lparr>Getwd = Some ''/w'', UserHomeDir = None, Environ = [],
     EvalSymlinks = (\<lambda>p. if p = ''/w'' \<or> p = ''/w/ls'' then Some p else None), StatDir = \<lambda>_. None,
     ExecutableBit = \<lambda>_. True, MkdirTemp = Some ''/tmp/x'', WriteFile = \<lambda>_ _. True, GOOS = ''linux'', Quote = id,
     landlock_abi = Some 4, SelfExe = True, GlobPaths = \<lambda>_. [], GoEnvRoot = \<lambda>_. None,
     LookPath = \<lambda>c. Some (''/w/'' @ c), AddRule = \<lambda>p _. if p = ''/w'' \<or> p = ''/w/ls'' then None else Some ENOENT\<rparr>"

lemma demo_clean: "Clean ''/w'' = ''/w''" "Clean ''/w/ls'' = ''/w/ls''"
  by (simp_all add: Clean_def clean_elems_def IsAbs_def)

lemma demo_canonical: "canonical_path demo_linux p = (if p = ''/w'' \<or> p = ''/w/ls'' then Some p else None)"
  by (auto simp: canonical_path_def demo_linux_def AbsPath_def IsAbs_def demo_clean)

lemma demo_runtime: "readonlyRuntimePaths demo_linux ''/w/ls'' ''/w/ls'' = [''/w/ls'']"
proof -
  have "StatDir demo_linux = (\<lambda>_. None)" "GlobPaths demo_linux = (\<lambda>_. [])" "Getenv demo_linux = (\<lambda>_. '''')"
    by (simp_all add: demo_linux_def Getenv_def fun_eq_iff)
  moreover have "Base ''/w/ls'' = ''ls''" by (simp add: Base_def TrimRight_def last_elem_def)
  ultimately show ?thesis
    unfolding readonlyRuntimePaths_def Let_def canonicalExistingPaths_def
    by (simp add: demo_canonical)
qed

lemma demo_validated: "validateIsolationPaths demo_linux demo_request = Inr demo_request"
proof -
  have "pathWithin ''/w'' ''/w''" by (simp add: pathWithin_def Rel_def demo_clean IsAbs_def)
  moreover have "AbsPath demo_linux ''/w'' = Some ''/w''" by (simp add: AbsPath_def IsAbs_def demo_clean)
  moreover have "EvalSymlinks demo_linux ''/w'' = Some ''/w''" by (simp add: demo_linux_def)
  ultimately show ?thesis
    by (simp add: validateIsolationPaths_def canonicalExistingPaths_def demo_canonical demo_request_def)
qed


definition demo_rules :: ruleset where
  "demo_rules = \<lparr>handled_fs = handledFilesystemAccess 4, handled_net = network_access False,
     rules = [(''/w/ls'', readonlyAccess), (''/w'', handledFilesystemAccess 4)]\<rparr>"

lemma demo_ruleset:
  "AllowedDirs_req r = [''/w''] \<Longrightarrow> ReadOnlyDirs_req r = [] \<Longrightarrow> \<not> AllowNetwork_req r \<Longrightarrow>
     landlock_ruleset demo_linux r ''/w/ls'' ''/w/ls'' = Inr demo_rules"
proof -
  assume r: "AllowedDirs_req r = [''/w'']" "ReadOnlyDirs_req r = []" "\<not> AllowNetwork_req r"
  have "AddRule demo_linux = (\<lambda>p _. if p = ''/w'' \<or> p = ''/w/ls'' then None else Some ENOENT)"
    "landlock_abi demo_linux = Some 4" "runtime_rule demo_linux = (\<lambda>p. (p, readonlyAccess))"
    by (simp_all add: demo_linux_def runtime_rule_def fun_eq_iff)
  with r show ?thesis
    unfolding landlock_ruleset_def demo_runtime demo_rules_def by (simp add: Let_def device_paths_def)
qed

theorem landlock_confines_witness: "\<not> fs_permits demo_rules ''/etc/shadow'' FS_WRITE_FILE"
proof -
  have rs: "landlock_ruleset demo_linux demo_request ''/w/ls'' ''/w/ls'' = Inr demo_rules"
    by (rule demo_ruleset) (simp_all add: demo_request_def)
  have "\<not> (\<exists>root \<in> set (AllowedDirs_req demo_request @ device_paths). below root ''/etc/shadow'')"
    by (simp add: demo_request_def device_paths_def below_def clean_elems_def IsAbs_def)
  moreover have "FS_WRITE_FILE AND handled_fs demo_rules \<noteq> 0" "FS_WRITE_FILE AND (FS_EXECUTE OR FS_READ_FILE OR FS_READ_DIR) = 0"
    by (simp_all add: demo_rules_def handled_abi3 access_bits)
  ultimately show ?thesis using landlock_confines [OF rs, of FS_WRITE_FILE "''/etc/shadow''"] by simp
qed

end
