(* ===== verification/Linux_Isolation.thy ===== *)
theory Linux_Isolation
  imports Landlock Seccomp Sandbox
begin

text \<open>
  The rest of \<^verbatim>\<open>internal/sandbox/isolation_linux.go\<close>: the resource limits and \<open>runIsolated\<close>, the
  sequence of system calls by which the helper restricts itself and then becomes the command.
  A system call is a step on the state of the process. Limits and directory belong to the process;
  \<^verbatim>\<open>no_new_privs\<close>, Landlock domains and seccomp filters belong to the thread that makes the call, and the
  program run by \<^verbatim>\<open>execve\<close> has those of the thread that called it. Which calls fail, and which
  thread makes which call, are arguments. The contract of the three platform files is a locale,
  interpreted on each of them.
\<close>

section \<open>The process\<close>

datatype resource = CPU | AS | NPROC | FSIZE | NOFILE | CORE

record thread =
  t_nnp :: bool
  t_landlock :: "ruleset list"
  t_seccomp :: "SockFilter list list"

text \<open>
  The goroutine that runs the helper is on thread \<open>p_thread\<close>. \<open>p_next\<close> is the choice of the Go
  scheduler: the threads on which the next thread-scoped calls are made, one for each call; when it
  is used up the goroutine stays where it is. The source never calls \<^verbatim>\<open>runtime.LockOSThread\<close>, so
  every such list is possible. Threads that the runtime starts on the way are not modelled.
\<close>

record proc =
  p_cwd :: string
  p_limits :: "resource \<Rightarrow> u64 \<times> u64"
  p_threads :: "nat \<Rightarrow> thread"
  p_thread :: nat
  p_next :: "nat list"
  p_exec :: "(string \<times> string list) option"

text \<open>What the thread of the goroutine is subject to, and so the program it becomes.\<close>

definition p_nnp :: "proc \<Rightarrow> bool" where
  "p_nnp p = t_nnp (p_threads p (p_thread p))"

definition p_landlock :: "proc \<Rightarrow> ruleset list" where
  "p_landlock p = t_landlock (p_threads p (p_thread p))"

definition p_seccomp :: "proc \<Rightarrow> SockFilter list list" where
  "p_seccomp p = t_seccomp (p_threads p (p_thread p))"

definition scheduled :: "proc \<Rightarrow> proc" where
  "scheduled p = (case p_next p of [] \<Rightarrow> p | t # ts \<Rightarrow> p\<lparr>p_thread := t, p_next := ts\<rparr>)"

definition on_thread :: "(thread \<Rightarrow> thread) \<Rightarrow> proc \<Rightarrow> proc" where
  "on_thread g p = p\<lparr>p_threads := (p_threads p)(p_thread p := g (p_threads p (p_thread p)))\<rparr>"

text \<open>The goroutine keeps its thread.\<close>

definition unmoved :: "proc \<Rightarrow> bool" where
  "unmoved p \<longleftrightarrow> set (p_next p) \<subseteq> {p_thread p}"

text \<open>
  How the kernel answers: the calls that fail, and \<open>host_after\<close>, the host as it answers once the
  process has changed to a directory (relative paths and the search for a command depend on it).
\<close>

record faults =
  host_after :: "string \<Rightarrow> linux_host"
  chdir_fails :: "string \<Rightarrow> bool"
  getrlimit_fails :: "resource \<Rightarrow> bool"
  setrlimit_fails :: "resource \<Rightarrow> bool"
  create_fails :: bool
  nnp_fails :: bool
  restrict_fails :: bool
  seccomp_fails :: bool
  exec_fails :: bool

text \<open>A step: an error, if any, and the state after it.\<close>

type_synonym step = "proc \<Rightarrow> string option \<times> proc"

definition then_step :: "step \<Rightarrow> step \<Rightarrow> step" where
  "then_step a b p = (case a p of (Some e, p') \<Rightarrow> (Some e, p') | (None, p') \<Rightarrow> b p')"

definition abort :: "string \<Rightarrow> step" where
  "abort e p = (Some e, p)"

lemma then_step_ok:
  "then_step a b p = (None, q) \<longleftrightarrow> (\<exists>p'. a p = (None, p') \<and> b p' = (None, q))"
  by (auto simp: then_step_def split: prod.splits option.splits)

section \<open>Resource limits\<close>

definition RLIM_INFINITY :: u64 where "RLIM_INFINITY = -1"

definition normalizeResourceLimits :: "isolationResourceLimits \<Rightarrow> isolationResourceLimits" where
  "normalizeResourceLimits l =
     \<lparr>CPUTimeSec_lim = or_default (CPUTimeSec_lim l) defaultSandboxCPUTimeSec,
      MaxMemoryBytes_lim = or_default (MaxMemoryBytes_lim l) defaultSandboxMaxMemoryBytes,
      MaxProcesses_lim = or_default (MaxProcesses_lim l) defaultSandboxMaxProcesses,
      MaxFileSizeBytes_lim = or_default (MaxFileSizeBytes_lim l) defaultSandboxMaxFileSize,
      MaxOpenFiles_lim = or_default (MaxOpenFiles_lim l) defaultSandboxMaxOpenFiles\<rparr>"

definition limited :: "u64 \<Rightarrow> u64 \<Rightarrow> u64" where
  "limited requested inherited_max =
     (if inherited_max \<noteq> RLIM_INFINITY \<and> inherited_max < requested then inherited_max else requested)"

definition setResourceLimit :: "faults \<Rightarrow> resource \<Rightarrow> u64 \<Rightarrow> step" where
  "setResourceLimit F r requested p =
     (if getrlimit_fails F r then (Some ''getrlimit'', p)
      else let v = limited requested (snd (p_limits p r)) in
        if setrlimit_fails F r then (Some ''setrlimit'', p)
        else (None, p\<lparr>p_limits := (p_limits p)(r := (v, v))\<rparr>))"

definition limit_settings :: "isolationResourceLimits \<Rightarrow> (resource \<times> u64) list" where
  "limit_settings l = [(CPU, CPUTimeSec_lim l), (AS, MaxMemoryBytes_lim l), (NPROC, MaxProcesses_lim l),
     (FSIZE, MaxFileSizeBytes_lim l), (NOFILE, MaxOpenFiles_lim l), (CORE, 0)]"

fun set_limits :: "faults \<Rightarrow> (resource \<times> u64) list \<Rightarrow> step" where
  "set_limits F [] p = (None, p)"
| "set_limits F ((r, v) # settings) p = then_step (setResourceLimit F r v) (set_limits F settings) p"

definition applyResourceLimits :: "faults \<Rightarrow> isolationResourceLimits \<Rightarrow> step" where
  "applyResourceLimits F l = set_limits F (limit_settings (normalizeResourceLimits l))"

section \<open>The restrictions\<close>

definition sys_chdir :: "faults \<Rightarrow> string \<Rightarrow> step" where
  "sys_chdir F dir p =
     (if chdir_fails F dir then (Some ''change working directory'', p) else (None, p\<lparr>p_cwd := dir\<rparr>))"

definition sys_no_new_privs :: "faults \<Rightarrow> step" where
  "sys_no_new_privs F p0 =
     (let p = scheduled p0 in
      if nnp_fails F then (Some ''set no_new_privs'', p)
      else (None, on_thread (\<lambda>t. t\<lparr>t_nnp := True\<rparr>) p))"

text \<open>An unprivileged thread may restrict itself only with \<^verbatim>\<open>no_new_privs\<close> set.\<close>

definition sys_restrict_self :: "faults \<Rightarrow> ruleset \<Rightarrow> step" where
  "sys_restrict_self F rs p0 =
     (let p = scheduled p0 in
      if restrict_fails F \<or> \<not> p_nnp p then (Some ''landlock_restrict_self'', p)
      else (None, on_thread (\<lambda>t. t\<lparr>t_landlock := rs # t_landlock t\<rparr>) p))"

definition sys_seccomp :: "faults \<Rightarrow> SockFilter list \<Rightarrow> step" where
  "sys_seccomp F f p0 =
     (let p = scheduled p0 in
      if seccomp_fails F \<or> \<not> p_nnp p then (Some ''install seccomp filter'', p)
      else (None, on_thread (\<lambda>t. t\<lparr>t_seccomp := f # t_seccomp t\<rparr>) p))"

definition sys_exec :: "faults \<Rightarrow> string \<Rightarrow> string list \<Rightarrow> step" where
  "sys_exec F path argv p0 =
     (let p = scheduled p0 in
      if exec_fails F then (Some ''exec'', p) else (None, p\<lparr>p_exec := Some (path, argv)\<rparr>))"

definition applyLandlock :: "linux_host \<Rightarrow> faults \<Rightarrow> isolationRequest \<Rightarrow> string \<Rightarrow> string \<Rightarrow> step" where
  "applyLandlock h F request commandPath invocationPath =
     (if create_fails F then abort ''create ruleset''
      else
        (case landlock_ruleset h request commandPath invocationPath of
           Inl e \<Rightarrow> abort e
         | Inr rs \<Rightarrow> then_step (sys_no_new_privs F) (sys_restrict_self F rs)))"

record numbers =
  SYS :: "string \<Rightarrow> u64"
  AUDIT :: "string \<Rightarrow> u32"
  GOARCH :: string

definition applySeccomp :: "numbers \<Rightarrow> faults \<Rightarrow> bool \<Rightarrow> step" where
  "applySeccomp N F allowNetwork =
     (case seccomp_program (SYS N) (AUDIT N) (GOARCH N) allowNetwork of
        Inl e \<Rightarrow> abort e
      | Inr f \<Rightarrow> sys_seccomp F f)"

text \<open>The end of \<open>runIsolated\<close>, from the limits on.\<close>

definition restrict_and_exec ::
    "linux_host \<Rightarrow> numbers \<Rightarrow> faults \<Rightarrow> isolationRequest \<Rightarrow> string \<Rightarrow> string \<Rightarrow> string list \<Rightarrow> step"
where
  "restrict_and_exec h N F request commandPath invocationPath argv =
     then_step (applyResourceLimits F (ResourceLimits_req request))
     (then_step (applyLandlock h F (request\<lparr>Command_req := argv\<rparr>) commandPath invocationPath)
     (then_step (applySeccomp N F (AllowNetwork_req request))
       (sys_exec F invocationPath argv)))"

definition runIsolated :: "linux_host \<Rightarrow> numbers \<Rightarrow> faults \<Rightarrow> isolationRequest \<Rightarrow> step" where
  "runIsolated h N F request0 =
     (case linux_isolationSupported h (AllowNetwork_req request0) of
        Some e \<Rightarrow> abort e
      | None \<Rightarrow>
          (case validateIsolationPaths h request0 of
             Inl e \<Rightarrow> abort e
           | Inr request \<Rightarrow>
               then_step (sys_chdir F (WorkingDir_req request))
                 (let h' = host_after F (WorkingDir_req request) in
                  case LookPath h' (hd (Command_req request)) of
                    None \<Rightarrow> abort ''resolve command''
                  | Some found \<Rightarrow>
                      (case AbsPath h' found of
                         None \<Rightarrow> abort ''canonicalize command invocation''
                       | Some invocationPath \<Rightarrow>
                           (case EvalSymlinks h' invocationPath of
                              None \<Rightarrow> abort ''resolve command symlinks''
                            | Some commandPath \<Rightarrow>
                                restrict_and_exec h' N F request commandPath invocationPath
                                  ((Command_req request)[0 := invocationPath]))))))"

section \<open>What a run guarantees\<close>

lemma limited_min: "limited requested inherited_max = min requested inherited_max"
proof -
  have "requested \<le> RLIM_INFINITY" by (simp add: RLIM_INFINITY_def)
  then show ?thesis by (auto simp: limited_def min_def not_le)
qed

lemma setResourceLimit_ok:
  "setResourceLimit F r v p = (None, q) \<Longrightarrow>
     q = p\<lparr>p_limits := (p_limits p)(r := (min v (snd (p_limits p r)), min v (snd (p_limits p r))))\<rparr>"
  by (auto simp: setResourceLimit_def Let_def limited_min split: if_splits)

lemma set_limits_ok:
  "set_limits F settings p = (None, q) \<Longrightarrow> distinct (map fst settings) \<Longrightarrow>
     q = p\<lparr>p_limits := p_limits q\<rparr> \<and>
     (\<forall>r. p_limits q r = (case map_of settings r of
         Some v \<Rightarrow> (min v (snd (p_limits p r)), min v (snd (p_limits p r))) | None \<Rightarrow> p_limits p r))"
proof (induction F settings p arbitrary: q rule: set_limits.induct)
  case (1 F p)
  then show ?case by simp
next
  case (2 F r v settings p)
  from "2.prems"(1) obtain p1 where p1: "setResourceLimit F r v p = (None, p1)" "set_limits F settings p1 = (None, q)"
    by (auto simp: then_step_ok)
  have dist: "distinct (map fst settings)" "r \<notin> fst ` set settings" using "2.prems"(2) by auto
  note p1' = setResourceLimit_ok [OF p1(1)]
  have IH: "q = p1\<lparr>p_limits := p_limits q\<rparr> \<and>
     (\<forall>r. p_limits q r = (case map_of settings r of
         Some v \<Rightarrow> (min v (snd (p_limits p1 r)), min v (snd (p_limits p1 r))) | None \<Rightarrow> p_limits p1 r))"
    using "2.IH" p1(2) dist(1) by blast
  have "map_of settings r = None" using dist(2) by (simp add: map_of_eq_None_iff)
  then have "p_limits q r' = (case map_of ((r, v) # settings) r' of
         Some v \<Rightarrow> (min v (snd (p_limits p r')), min v (snd (p_limits p r'))) | None \<Rightarrow> p_limits p r')" for r'
    using conjunct2 [OF IH, rule_format, of r'] unfolding p1' by (cases "r' = r") (auto split: option.splits)
  moreover have "q = p\<lparr>p_limits := p_limits q\<rparr>"
  proof -
    have "q = p1\<lparr>p_limits := p_limits q\<rparr>" using IH by blast
    also have "\<dots> = p\<lparr>p_limits := p_limits q\<rparr>" by (simp add: p1')
    finally show ?thesis .
  qed
  ultimately show ?case by blast
qed

text \<open>Moving the goroutine, and changing one thread.\<close>

lemma scheduled_simps [simp]:
  "p_cwd (scheduled p) = p_cwd p" "p_limits (scheduled p) = p_limits p"
  "p_threads (scheduled p) = p_threads p" "p_exec (scheduled p) = p_exec p"
  by (simp_all add: scheduled_def split: list.splits)

lemma on_thread_simps [simp]:
  "p_cwd (on_thread g p) = p_cwd p" "p_limits (on_thread g p) = p_limits p" "p_exec (on_thread g p) = p_exec p"
  "p_thread (on_thread g p) = p_thread p" "p_next (on_thread g p) = p_next p"
  "p_threads (on_thread g p) = (p_threads p)(p_thread p := g (p_threads p (p_thread p)))"
  by (simp_all add: on_thread_def)

lemma unmoved_simps [simp]:
  "unmoved p \<Longrightarrow> p_thread (scheduled p) = p_thread p" "unmoved p \<Longrightarrow> unmoved (scheduled p)"
  "unmoved (on_thread g p) = unmoved p"
  by (auto simp: unmoved_def scheduled_def split: list.splits)

lemmas thread_state = p_nnp_def p_landlock_def p_seccomp_def

text \<open>Steps that do not become another program.\<close>

definition keeps_image :: "step \<Rightarrow> bool" where
  "keeps_image s \<longleftrightarrow> (\<forall>p. p_exec (snd (s p)) = p_exec p)"

lemma then_step_image:
  assumes "keeps_image a" "then_step a b p = (e, q)" "p_exec q \<noteq> p_exec p"
  obtains p' where "a p = (None, p')" "b p' = (e, q)" "p_exec p' = p_exec p"
proof -
  obtain e' p' where a: "a p = (e', p')" by fastforce
  have same: "p_exec p' = p_exec p" using assms(1) a unfolding keeps_image_def by (metis snd_conv)
  show ?thesis
  proof (cases e')
    case None
    with a assms(2) same that show ?thesis by (simp add: then_step_def)
  next
    case (Some x)
    with a assms(2,3) same show ?thesis by (simp add: then_step_def)
  qed
qed

lemma keeps_then_step: "keeps_image a \<Longrightarrow> keeps_image b \<Longrightarrow> keeps_image (then_step a b)"
  unfolding keeps_image_def
proof (intro allI)
  fix p assume k: "\<forall>p. p_exec (snd (a p)) = p_exec p" "\<forall>p. p_exec (snd (b p)) = p_exec p"
  obtain e p' where a: "a p = (e, p')" by fastforce
  with k have "p_exec p' = p_exec p" by (metis snd_conv)
  with a k(2) show "p_exec (snd (then_step a b p)) = p_exec p" by (cases e) (simp_all add: then_step_def)
qed

lemma keeps_abort: "keeps_image (abort e)"
  by (simp add: keeps_image_def abort_def)

lemma keeps_chdir: "keeps_image (sys_chdir F dir)"
  by (simp add: keeps_image_def sys_chdir_def)

lemma keeps_nnp: "keeps_image (sys_no_new_privs F)"
  by (simp add: keeps_image_def sys_no_new_privs_def Let_def)

lemma keeps_restrict: "keeps_image (sys_restrict_self F rs)"
  by (simp add: keeps_image_def sys_restrict_self_def Let_def)

lemma keeps_seccomp: "keeps_image (sys_seccomp F f)"
  by (simp add: keeps_image_def sys_seccomp_def Let_def)

lemma keeps_limit: "keeps_image (setResourceLimit F r v)"
  by (simp add: keeps_image_def setResourceLimit_def Let_def)

lemma keeps_limits: "keeps_image (set_limits F settings)"
proof (induction settings)
  case Nil
  then show ?case by (simp add: keeps_image_def)
next
  case (Cons rv settings)
  have "set_limits F (rv # settings) = then_step (setResourceLimit F (fst rv) (snd rv)) (set_limits F settings)"
    by (cases rv) (simp add: fun_eq_iff)
  then show ?case using Cons keeps_limit keeps_then_step by simp
qed

lemma keeps_landlock: "keeps_image (applyLandlock h F r c i)"
proof (cases "create_fails F")
  case True
  then have "applyLandlock h F r c i = abort ''create ruleset''" by (simp add: applyLandlock_def fun_eq_iff)
  then show ?thesis by (simp add: keeps_abort)
next
  case False
  then have "applyLandlock h F r c i = (case landlock_ruleset h r c i of
           Inl e \<Rightarrow> abort e | Inr rs \<Rightarrow> then_step (sys_no_new_privs F) (sys_restrict_self F rs))"
    by (simp add: applyLandlock_def fun_eq_iff)
  then show ?thesis
    by (cases "landlock_ruleset h r c i") (simp_all add: keeps_abort keeps_then_step keeps_nnp keeps_restrict)
qed

lemma keeps_applySeccomp: "keeps_image (applySeccomp N F an)"
proof -
  have "applySeccomp N F an = (case seccomp_program (SYS N) (AUDIT N) (GOARCH N) an of
      Inl e \<Rightarrow> abort e | Inr f \<Rightarrow> sys_seccomp F f)"
    by (simp add: applySeccomp_def fun_eq_iff)
  then show ?thesis by (cases "seccomp_program (SYS N) (AUDIT N) (GOARCH N) an") (simp_all add: keeps_abort keeps_seccomp)
qed

lemmas keeps_steps = keeps_chdir keeps_limits keeps_landlock keeps_applySeccomp

lemma applyLandlock_ok:
  assumes "applyLandlock h F r c i p = (None, q)"
  obtains rs p1 where "landlock_ruleset h r c i = Inr rs" "p1 = on_thread (\<lambda>t. t\<lparr>t_nnp := True\<rparr>) (scheduled p)"
    "p_nnp (scheduled p1)" "q = on_thread (\<lambda>t. t\<lparr>t_landlock := rs # t_landlock t\<rparr>) (scheduled p1)"
  using assms
  by (auto simp: applyLandlock_def abort_def then_step_ok sys_no_new_privs_def sys_restrict_self_def Let_def
      split: if_splits sum.splits)

lemma applySeccomp_ok:
  assumes "applySeccomp N F an p = (None, q)"
  obtains f where "seccomp_program (SYS N) (AUDIT N) (GOARCH N) an = Inr f" "p_nnp (scheduled p)"
    "q = on_thread (\<lambda>t. t\<lparr>t_seccomp := f # t_seccomp t\<rparr>) (scheduled p)"
  using assms by (auto simp: applySeccomp_def abort_def sys_seccomp_def Let_def split: if_splits sum.splits)

text \<open>
  The state after the restrictions, for every schedule: the four calls one after the other.
\<close>

definition restricted :: "ruleset \<Rightarrow> SockFilter list \<Rightarrow> proc \<Rightarrow> proc \<Rightarrow> bool" where
  "restricted rs f p q \<longleftrightarrow>
     (\<exists>p1 p2 p3. p1 = on_thread (\<lambda>t. t\<lparr>t_nnp := True\<rparr>) (scheduled p) \<and>
        p2 = on_thread (\<lambda>t. t\<lparr>t_landlock := rs # t_landlock t\<rparr>) (scheduled p1) \<and>
        p3 = on_thread (\<lambda>t. t\<lparr>t_seccomp := f # t_seccomp t\<rparr>) (scheduled p2) \<and>
        p_threads q = p_threads p3 \<and> p_thread q = p_thread (scheduled p3))"

lemma restricted_somewhere:
  assumes "restricted rs f p q"
  shows "(\<exists>t. rs \<in> set (t_landlock (p_threads q t))) \<and> (\<exists>t. f \<in> set (t_seccomp (p_threads q t)))"
proof -
  from assms obtain p1 p2 p3 where p2: "p2 = on_thread (\<lambda>t. t\<lparr>t_landlock := rs # t_landlock t\<rparr>) (scheduled p1)"
    and p3: "p3 = on_thread (\<lambda>t. t\<lparr>t_seccomp := f # t_seccomp t\<rparr>) (scheduled p2)" "p_threads q = p_threads p3"
    unfolding restricted_def by blast
  have "rs \<in> set (t_landlock (p_threads p2 (p_thread p2)))" by (simp add: p2)
  then have "rs \<in> set (t_landlock (p_threads q (p_thread p2)))" by (auto simp: p3)
  moreover have "f \<in> set (t_seccomp (p_threads q (p_thread (scheduled p2))))" by (simp add: p3)
  ultimately show ?thesis by blast
qed

lemma restricted_unmoved:
  assumes "restricted rs f p q" "unmoved p"
  shows "p_nnp q \<and> p_landlock q = rs # p_landlock p \<and> p_seccomp q = f # p_seccomp p"
  using assms unfolding restricted_def by (auto simp: thread_state)

definition same_threads :: "proc \<Rightarrow> proc \<Rightarrow> bool" where
  "same_threads a b \<longleftrightarrow> p_threads a = p_threads b \<and> p_thread a = p_thread b \<and> p_next a = p_next b"

lemma same_threads_scheduled: "same_threads a b \<Longrightarrow> same_threads (scheduled a) (scheduled b)"
  by (simp add: same_threads_def scheduled_def split: list.splits)

lemma same_threads_step: "same_threads a b \<Longrightarrow> same_threads (on_thread g (scheduled a)) (on_thread g (scheduled b))"
  using same_threads_scheduled [of a b] by (simp add: same_threads_def)

lemma restricted_cong:
  assumes "same_threads p p'"
  shows "restricted rs f p q \<longleftrightarrow> restricted rs f p' q"
proof -
  let ?s = "\<lambda>p. on_thread (\<lambda>t. t\<lparr>t_seccomp := f # t_seccomp t\<rparr>) (scheduled
      (on_thread (\<lambda>t. t\<lparr>t_landlock := rs # t_landlock t\<rparr>) (scheduled
        (on_thread (\<lambda>t. t\<lparr>t_nnp := True\<rparr>) (scheduled p)))))"
  have "same_threads (?s p) (?s p')" by (intro same_threads_step assms)
  from this same_threads_scheduled [OF this]
  have "p_threads (?s p) = p_threads (?s p')" "p_thread (scheduled (?s p)) = p_thread (scheduled (?s p'))"
    unfolding same_threads_def by blast+
  then show ?thesis unfolding restricted_def by (simp only: simp_thms ex_simps)
qed

text \<open>On a schedule that makes the first three calls on one thread and \<^verbatim>\<open>execve\<close> on another.\<close>

lemma restricted_moved:
  assumes "restricted rs f p q" "p_next p = [t, t, t, u]" "u \<noteq> t"
  shows "p_thread q = u \<and> p_threads q u = p_threads p u"
proof -
  from assms(1) obtain p1 p2 p3 where p: "p1 = on_thread (\<lambda>t. t\<lparr>t_nnp := True\<rparr>) (scheduled p)"
    "p2 = on_thread (\<lambda>t. t\<lparr>t_landlock := rs # t_landlock t\<rparr>) (scheduled p1)"
    "p3 = on_thread (\<lambda>t. t\<lparr>t_seccomp := f # t_seccomp t\<rparr>) (scheduled p2)"
    "p_threads q = p_threads p3" "p_thread q = p_thread (scheduled p3)"
    unfolding restricted_def by blast
  have 1: "p_thread p1 = t" "p_next p1 = [t, t, u]" "p_threads p1 u = p_threads p u"
    using assms(2,3) by (simp_all add: p(1) scheduled_def)
  have 2: "p_thread p2 = t" "p_next p2 = [t, u]" "p_threads p2 u = p_threads p u"
    using 1 assms(3) by (simp_all add: p(2) scheduled_def)
  have 3: "p_next p3 = [u]" "p_threads p3 u = p_threads p u"
    using 2 assms(3) by (simp_all add: p(3) scheduled_def)
  then show ?thesis using p(4,5) by (simp add: scheduled_def)
qed

lemma restrict_and_exec_image:
  assumes "restrict_and_exec h N F r c i argv p = (e, q)" "p_exec q \<noteq> p_exec p"
  shows "e = None \<and> p_exec q = Some (i, argv) \<and> p_cwd q = p_cwd p \<and>
     (\<exists>rs f. landlock_ruleset h (r\<lparr>Command_req := argv\<rparr>) c i = Inr rs \<and>
        seccomp_program (SYS N) (AUDIT N) (GOARCH N) (AllowNetwork_req r) = Inr f \<and> restricted rs f p q) \<and>
     (\<forall>(res, v) \<in> set (limit_settings (normalizeResourceLimits (ResourceLimits_req r))).
        p_limits q res = (min v (snd (p_limits p res)), min v (snd (p_limits p res))))"
proof -
  let ?settings = "limit_settings (normalizeResourceLimits (ResourceLimits_req r))"
  from assms obtain p1 where 1: "applyResourceLimits F (ResourceLimits_req r) p = (None, p1)"
    "then_step (applyLandlock h F (r\<lparr>Command_req := argv\<rparr>) c i)
      (then_step (applySeccomp N F (AllowNetwork_req r)) (sys_exec F i argv)) p1 = (e, q)" "p_exec p1 = p_exec p"
    unfolding restrict_and_exec_def applyResourceLimits_def by (rule then_step_image [OF keeps_limits])
  have "p_exec q \<noteq> p_exec p1" using 1(3) assms(2) by simp
  from 1(2) this obtain p2 where 2: "applyLandlock h F (r\<lparr>Command_req := argv\<rparr>) c i p1 = (None, p2)"
    "then_step (applySeccomp N F (AllowNetwork_req r)) (sys_exec F i argv) p2 = (e, q)" "p_exec p2 = p_exec p1"
    by (rule then_step_image [OF keeps_landlock])
  have "p_exec q \<noteq> p_exec p2" using 1(3) 2(3) assms(2) by simp
  from 2(2) this obtain p3 where 3: "applySeccomp N F (AllowNetwork_req r) p2 = (None, p3)"
    "sys_exec F i argv p3 = (e, q)" "p_exec p3 = p_exec p2"
    by (rule then_step_image [OF keeps_applySeccomp])
  have ex: "e = None \<and> q = (scheduled p3)\<lparr>p_exec := Some (i, argv)\<rparr>"
    using 3 1(3) 2(3) assms(2) by (auto simp: sys_exec_def Let_def split: if_splits)
  from 2(1) obtain rs pn where ll: "landlock_ruleset h (r\<lparr>Command_req := argv\<rparr>) c i = Inr rs"
    "pn = on_thread (\<lambda>t. t\<lparr>t_nnp := True\<rparr>) (scheduled p1)" "p_nnp (scheduled pn)"
    "p2 = on_thread (\<lambda>t. t\<lparr>t_landlock := rs # t_landlock t\<rparr>) (scheduled pn)"
    by (rule applyLandlock_ok)
  from 3(1) obtain f where sc: "seccomp_program (SYS N) (AUDIT N) (GOARCH N) (AllowNetwork_req r) = Inr f"
    "p_nnp (scheduled p2)" "p3 = on_thread (\<lambda>t. t\<lparr>t_seccomp := f # t_seccomp t\<rparr>) (scheduled p2)"
    by (rule applySeccomp_ok)
  have dist: "distinct (map fst ?settings)" by (simp add: limit_settings_def)
  have lim: "p1 = p\<lparr>p_limits := p_limits p1\<rparr>"
    "\<forall>res. p_limits p1 res = (case map_of ?settings res of
        Some v \<Rightarrow> (min v (snd (p_limits p res)), min v (snd (p_limits p res))) | None \<Rightarrow> p_limits p res)"
    using set_limits_ok [OF 1(1) [unfolded applyResourceLimits_def] dist] by blast+
  have keep: "p_cwd p1 = p_cwd p" "p_threads p1 = p_threads p" "p_thread p1 = p_thread p" "p_next p1 = p_next p"
    by (subst lim(1), simp)+
  then have same: "same_threads p1 p" by (simp add: same_threads_def)
  have vals: "p_limits p1 res = (min v (snd (p_limits p res)), min v (snd (p_limits p res)))"
    if "(res, v) \<in> set ?settings" for res v
    using lim(2) map_of_is_SomeI [OF dist that] by simp
  have "restricted rs f p1 q"
    unfolding restricted_def using ll(2,4) sc(3) ex by (intro exI conjI) simp_all
  then have "restricted rs f p q"
    using restricted_cong [OF same] by blast
  moreover have "p_cwd q = p_cwd p" "p_limits q = p_limits p1"
    using ex ll(2,4) sc(3) keep(1) by simp_all
  ultimately show ?thesis using ll(1) sc(1) ex vals by auto
qed

lemma keeps_restrict_error:
  "restrict_and_exec h N F r c i argv p = (Some e, q) \<Longrightarrow> p_exec q = p_exec p"
  using restrict_and_exec_image [of h N F r c i argv p "Some e" q] by auto

section \<open>The contract of a platform\<close>

text \<open>
  What the shared code relies on: a platform that reports no support never runs the request, and
  a helper path, when there is one, is not empty.
\<close>

locale isolation_backend =
  fixes isolationSupported :: "bool \<Rightarrow> string option"
    and isolationHelperPath :: "(string, string) result"
    and run :: "isolationRequest \<Rightarrow> step"
  assumes unsupported_stops:
      "isolationSupported (AllowNetwork_req r) \<noteq> None \<Longrightarrow> fst (run r p) \<noteq> None \<and> snd (run r p) = p"
    and helper_named: "isolationHelperPath = Inr path \<Longrightarrow> path \<noteq> ''''"
begin

lemma ran_supported: "run r p = (None, q) \<Longrightarrow> isolationSupported (AllowNetwork_req r) = None"
  using unsupported_stops [of r p] by (cases "isolationSupported (AllowNetwork_req r)") auto

lemma helper_ran:
  assumes "RunSandboxHelper J abort run args p = (None, q)"
  shows "\<exists>r. run r p = (None, q) \<and> isolationSupported (AllowNetwork_req r) = None"
proof -
  from assms obtain r where "run r p = (None, q)"
    by (auto simp: RunSandboxHelper_def abort_def split: option.splits if_splits)
  with ran_supported show ?thesis by blast
qed

end

lemma linux_unsupported: "linux_isolationSupported h (AllowNetwork_req r) = Some e \<Longrightarrow> runIsolated h N F r p = (Some e, p)"
  by (simp add: runIsolated_def abort_def)

interpretation linux: isolation_backend "linux_isolationSupported h" "linux_isolationHelperPath h" "runIsolated h N F"
  for h N F
  by unfold_locales (auto simp: linux_unsupported linux_isolationHelperPath_def split: if_splits)

interpretation darwin: isolation_backend "darwin_isolationSupported h" "darwin_isolationHelperPath h"
    "\<lambda>r p. (darwin_runIsolated r, p)" for h
  by unfold_locales (auto simp: darwin_runIsolated_def darwin_isolationHelperPath_def sandboxExecPath_def split: option.splits)

interpretation elsewhere: isolation_backend "other_isolationSupported goos" "other_isolationHelperPath goos"
    "\<lambda>r p. (other_runIsolated goos r, p)" for goos
  by unfold_locales (auto simp: other_runIsolated_def other_isolationSupported_def other_isolationHelperPath_def)

text \<open>A process before it restricts itself, on a host where nothing fails.\<close>

definition demo_proc :: proc where
  "demo_proc = \<lparr>p_cwd = ''/'', p_limits = \<lambda>_. (10, 20),
     p_threads = \<lambda>_. \<lparr>t_nnp = False, t_landlock = [], t_seccomp = []\<rparr>, p_thread = 0, p_next = [], p_exec = None\<rparr>"

definition no_faults :: faults where
  "no_faults = \<lparr>host_after = \<lambda>_. demo_linux, chdir_fails = \<lambda>_. False, getrlimit_fails = \<lambda>_. False,
     setrlimit_fails = \<lambda>_. False, create_fails = False, nnp_fails = False, restrict_fails = False,
     seccomp_fails = False, exec_fails = False\<rparr>"

definition demo_numbers :: numbers where
  "demo_numbers = \<lparr>SYS = \<lambda>_. 41, AUDIT = \<lambda>_. 0xC000003E, GOARCH = ''amd64''\<rparr>"

lemma demo_limits:
  "\<exists>q. applyResourceLimits no_faults l p = (None, q) \<and> p_threads q = p_threads p \<and> p_thread q = p_thread p \<and>
     p_next q = p_next p \<and> p_exec q = p_exec p"
  by (simp add: applyResourceLimits_def limit_settings_def then_step_def setResourceLimit_def Let_def no_faults_def)

text \<open>A request for \<^verbatim>\<open>ls\<close> in the workspace, as it is after validation, and before.\<close>

definition demo_valid :: "isolationRequest \<Rightarrow> bool" where
  "demo_valid r \<longleftrightarrow> AllowedDirs_req r = [''/w''] \<and> ReadOnlyDirs_req r = [] \<and> WorkingDir_req r = ''/w'' \<and>
     Command_req r = [''ls''] \<and> \<not> AllowNetwork_req r"

lemma demo_restrict:
  assumes "demo_valid r" "p_next p = [] \<or> p_next p = [t, t, t, u]"
  shows "\<exists>q. restrict_and_exec demo_linux demo_numbers no_faults r ''/w/ls'' ''/w/ls'' [''/w/ls''] p = (None, q) \<and>
     p_exec q = Some (''/w/ls'', [''/w/ls''])"
proof -
  have rs: "landlock_ruleset demo_linux (r\<lparr>Command_req := [''/w/ls'']\<rparr>) ''/w/ls'' ''/w/ls'' = Inr demo_rules"
    by (rule demo_ruleset) (use assms(1) in \<open>simp_all add: demo_valid_def\<close>)
  obtain f where f: "seccomp_program (SYS demo_numbers) (AUDIT demo_numbers) (GOARCH demo_numbers)
      (AllowNetwork_req r) = Inr f"
    by (simp add: demo_numbers_def seccomp_program_def nativeAuditArchitecture_def)
  obtain p1 where p1: "applyResourceLimits no_faults (ResourceLimits_req r) p = (None, p1)" "p_next p1 = p_next p"
    using demo_limits by blast
  have ok: "\<not> nnp_fails no_faults" "\<not> restrict_fails no_faults" "\<not> seccomp_fails no_faults" "\<not> exec_fails no_faults"
    "\<not> create_fails no_faults" by (simp_all add: no_faults_def)
  show ?thesis
    using assms(2) unfolding p1(2) [symmetric]
    by (elim disjE) (simp_all add: restrict_and_exec_def then_step_def [of "applyResourceLimits _ _"] p1(1)
        applyLandlock_def rs applySeccomp_def f ok then_step_def sys_no_new_privs_def sys_restrict_self_def sys_seccomp_def
        sys_exec_def Let_def scheduled_def on_thread_def thread_state)
qed

lemma demo_run:
  assumes "validateIsolationPaths demo_linux request = Inr r" "demo_valid r" "p_next p = [] \<or> p_next p = [t, t, t, u]"
  shows "\<exists>q. runIsolated demo_linux demo_numbers no_faults request p = (None, q) \<and>
    p_exec q = Some (''/w/ls'', [''/w/ls''])"
proof -
  let ?p1 = "p\<lparr>p_cwd := ''/w''\<rparr>"
  have "linux_isolationSupported demo_linux network = None" for network
    by (simp add: linux_isolationSupported_def demo_linux_def)
  moreover have "LookPath demo_linux ''ls'' = Some ''/w/ls''" "EvalSymlinks demo_linux ''/w/ls'' = Some ''/w/ls''"
    by (simp_all add: demo_linux_def)
  moreover have "sys_chdir no_faults ''/w'' p = (None, ?p1)" "host_after no_faults ''/w'' = demo_linux"
    by (simp_all add: sys_chdir_def no_faults_def)
  moreover have "AbsPath demo_linux ''/w/ls'' = Some ''/w/ls''" by (simp add: AbsPath_def IsAbs_def demo_clean)
  ultimately have "runIsolated demo_linux demo_numbers no_faults request p
      = restrict_and_exec demo_linux demo_numbers no_faults r ''/w/ls'' ''/w/ls'' [''/w/ls''] ?p1"
    using assms(1,2) by (simp add: runIsolated_def demo_valid_def then_step_def Let_def)
  with demo_restrict [OF assms(2), of ?p1 t u] assms(3) show ?thesis by simp
qed

lemma demo_request_valid: "demo_valid demo_request"
  by (simp add: demo_valid_def demo_request_def)

lemma runIsolated_image:
  assumes "runIsolated h N F request p = (e, q)" "p_exec q \<noteq> p_exec p"
  shows "e = None \<and> linux_isolationSupported h (AllowNetwork_req request) = None \<and>
     (\<exists>r path commandPath rs f. validateIsolationPaths h request = Inr r \<and> p_cwd q = WorkingDir_req r \<and>
        p_exec q = Some (path, (Command_req r)[0 := path]) \<and>
        landlock_ruleset (host_after F (WorkingDir_req r)) (r\<lparr>Command_req := (Command_req r)[0 := path]\<rparr>) commandPath path
          = Inr rs \<and>
        seccomp_program (SYS N) (AUDIT N) (GOARCH N) (AllowNetwork_req r) = Inr f \<and> restricted rs f p q \<and>
        (\<forall>(res, v) \<in> set (limit_settings (normalizeResourceLimits (ResourceLimits_req r))).
           p_limits q res = (min v (snd (p_limits p res)), min v (snd (p_limits p res)))))"
proof -
  have sup: "linux_isolationSupported h (AllowNetwork_req request) = None"
    using assms by (cases "linux_isolationSupported h (AllowNetwork_req request)") (auto simp: linux_unsupported)
  with assms obtain r where r: "validateIsolationPaths h request = Inr r"
    by (auto simp: runIsolated_def abort_def split: sum.splits)
  let ?h = "host_after F (WorkingDir_req r)"
  from assms(1) sup r obtain rest where run: "then_step (sys_chdir F (WorkingDir_req r)) rest p = (e, q)"
    "rest = (case LookPath ?h (hd (Command_req r)) of
        None \<Rightarrow> abort ''resolve command''
      | Some found \<Rightarrow>
          (case AbsPath ?h found of
             None \<Rightarrow> abort ''canonicalize command invocation''
           | Some invocationPath \<Rightarrow>
               (case EvalSymlinks ?h invocationPath of
                  None \<Rightarrow> abort ''resolve command symlinks''
                | Some commandPath \<Rightarrow> restrict_and_exec ?h N F r commandPath invocationPath
                    ((Command_req r)[0 := invocationPath]))))"
    by (simp add: runIsolated_def Let_def)
  from run(1) assms(2) obtain p1 where p1: "sys_chdir F (WorkingDir_req r) p = (None, p1)" "rest p1 = (e, q)"
      "p_exec p1 = p_exec p"
    by (rule then_step_image [OF keeps_chdir])
  have cd: "p1 = p\<lparr>p_cwd := WorkingDir_req r\<rparr>" using p1(1) by (auto simp: sys_chdir_def split: if_splits)
  have ne: "p_exec q \<noteq> p_exec p1" using assms(2) p1(3) by simp
  from p1(2) ne obtain c i where "restrict_and_exec ?h N F r c i ((Command_req r)[0 := i]) p1 = (e, q)"
    unfolding run(2) by (auto simp: abort_def split: option.splits if_splits)
  from restrict_and_exec_image [OF this ne]
  have im: "e = None" "p_exec q = Some (i, (Command_req r)[0 := i])" "p_cwd q = p_cwd p1"
    "\<exists>rs f. landlock_ruleset ?h (r\<lparr>Command_req := (Command_req r)[0 := i]\<rparr>) c i = Inr rs \<and>
        seccomp_program (SYS N) (AUDIT N) (GOARCH N) (AllowNetwork_req r) = Inr f \<and> restricted rs f p1 q"
    "\<forall>(res, v) \<in> set (limit_settings (normalizeResourceLimits (ResourceLimits_req r))).
        p_limits q res = (min v (snd (p_limits p1 res)), min v (snd (p_limits p1 res)))"
    by blast+
  have "restricted rs f p1 q = restricted rs f p q" for rs f by (rule restricted_cong) (simp add: cd same_threads_def)
  with im sup r cd show ?thesis by auto
qed

text \<open>On Linux the helper does not come back from a success: it has become a program.\<close>

lemma runIsolated_becomes: "runIsolated h N F request p = (None, q) \<Longrightarrow> p_exec q \<noteq> None"
  by (auto simp: runIsolated_def abort_def then_step_ok restrict_and_exec_def sys_exec_def Let_def
      split: option.splits sum.splits if_splits)

section \<open>Properties\<close>

text \<open>
  Property C3: the helper becomes another program only after every restriction has been put in
  force. If \<open>runIsolated\<close> changes the image of the process, it reports no error, the kernel supports
  the isolation asked for, the working directory is the validated one, each limit is the smaller
  of the requested and the inherited one, the program is the resolved command, and the collected
  ruleset and the filter are each in force on a thread of the helper. When the goroutine has kept
  its thread, they are in force, on top of those inherited and with \<^verbatim>\<open>no_new_privs\<close>, on the thread
  that became the program.
\<close>
theorem runIsolated_restricted:
  assumes "runIsolated h N F request p = (e, q)" "p_exec q \<noteq> p_exec p"
  shows "e = None \<and> linux_isolationSupported h (AllowNetwork_req request) = None \<and>
     (\<exists>r path commandPath rs f. validateIsolationPaths h request = Inr r \<and> p_cwd q = WorkingDir_req r \<and>
        p_exec q = Some (path, (Command_req r)[0 := path]) \<and>
        landlock_ruleset (host_after F (WorkingDir_req r)) (r\<lparr>Command_req := (Command_req r)[0 := path]\<rparr>) commandPath path
          = Inr rs \<and>
        seccomp_program (SYS N) (AUDIT N) (GOARCH N) (AllowNetwork_req r) = Inr f \<and>
        (\<exists>t. rs \<in> set (t_landlock (p_threads q t))) \<and> (\<exists>t. f \<in> set (t_seccomp (p_threads q t))) \<and>
        (unmoved p \<longrightarrow> p_nnp q \<and> p_landlock q = rs # p_landlock p \<and> p_seccomp q = f # p_seccomp p) \<and>
        (\<forall>(res, v) \<in> set (limit_settings (normalizeResourceLimits (ResourceLimits_req r))).
           p_limits q res = (min v (snd (p_limits p res)), min v (snd (p_limits p res)))))"
proof -
  from runIsolated_image [OF assms] obtain r path commandPath rs f where
    "e = None" "linux_isolationSupported h (AllowNetwork_req request) = None"
    "validateIsolationPaths h request = Inr r" "p_cwd q = WorkingDir_req r"
    "p_exec q = Some (path, (Command_req r)[0 := path])"
    "landlock_ruleset (host_after F (WorkingDir_req r)) (r\<lparr>Command_req := (Command_req r)[0 := path]\<rparr>) commandPath path
      = Inr rs"
    "seccomp_program (SYS N) (AUDIT N) (GOARCH N) (AllowNetwork_req r) = Inr f"
    "\<forall>(res, v) \<in> set (limit_settings (normalizeResourceLimits (ResourceLimits_req r))).
       p_limits q res = (min v (snd (p_limits p res)), min v (snd (p_limits p res)))"
    and rs: "restricted rs f p q"
    by blast
  with restricted_somewhere [OF rs] restricted_unmoved [OF rs] show ?thesis by blast
qed

theorem runIsolated_restricted_witness:
  "\<exists>q rs f. runIsolated demo_linux demo_numbers no_faults demo_request demo_proc = (None, q) \<and>
     p_nnp q \<and> p_landlock q = [rs] \<and> p_seccomp q = [f]"
proof -
  have still: "p_next demo_proc = []" "unmoved demo_proc" by (simp_all add: demo_proc_def unmoved_def)
  obtain q where q: "runIsolated demo_linux demo_numbers no_faults demo_request demo_proc = (None, q)"
    "p_exec q = Some (''/w/ls'', [''/w/ls''])" using demo_run [OF demo_validated demo_request_valid] still(1) by blast
  then have "p_exec q \<noteq> p_exec demo_proc" by (simp add: demo_proc_def)
  from runIsolated_restricted [OF q(1) this] still(2) obtain rs f where "p_nnp q" "p_landlock q = rs # p_landlock demo_proc"
    "p_seccomp q = f # p_seccomp demo_proc"
    by blast
  with q(1) show ?thesis by (auto simp: demo_proc_def thread_state)
qed

text \<open>
  Property C16: the restrictions can miss the command. Nothing ties the helper's goroutine to a thread;
  on a schedule that makes the calls up to the filter on one thread and \<^verbatim>\<open>execve\<close> on another, a run
  in which nothing fails ends in the command, and the command is subject to exactly what the
  second thread was subject to before.
\<close>
theorem thread_switch_escapes:
  assumes "runIsolated h N F request p = (None, q)" "p_next p = [t, t, t, u]" "u \<noteq> t"
    and "p_exec p = None"
  shows "p_exec q \<noteq> None \<and> p_nnp q = t_nnp (p_threads p u) \<and> p_landlock q = t_landlock (p_threads p u) \<and>
     p_seccomp q = t_seccomp (p_threads p u)"
proof -
  have ex: "p_exec q \<noteq> None" using assms(1) by (rule runIsolated_becomes)
  then obtain rs f where "restricted rs f p q" using runIsolated_image [OF assms(1)] assms(4) by auto
  from restricted_moved [OF this assms(2,3)] ex show ?thesis by (simp add: thread_state)
qed

theorem thread_switch_escapes_witness:
  "\<exists>q. runIsolated demo_linux demo_numbers no_faults demo_request (demo_proc\<lparr>p_next := [0, 0, 0, 1]\<rparr>) = (None, q) \<and>
     p_exec q = Some (''/w/ls'', [''/w/ls'']) \<and> \<not> p_nnp q \<and> p_landlock q = [] \<and> p_seccomp q = []"
proof -
  let ?p = "demo_proc\<lparr>p_next := [0, 0, 0, 1]\<rparr>"
  obtain q where q: "runIsolated demo_linux demo_numbers no_faults demo_request ?p = (None, q)"
    "p_exec q = Some (''/w/ls'', [''/w/ls''])" using demo_run [OF demo_validated demo_request_valid, of ?p 0 1] by auto
  from thread_switch_escapes [OF q(1), of 0 1] q show ?thesis by (simp add: demo_proc_def)
qed

text \<open>
  A helper that ends without an error ran a request its platform supports: on Linux
  through \<open>runIsolated\<close>, on the other platforms never; and no platform names an empty helper path.
\<close>
theorem helper_fails_closed:
  "(RunSandboxHelper J abort (runIsolated h N F) args p = (None, q) \<longrightarrow>
      (\<exists>r. runIsolated h N F r p = (None, q) \<and> linux_isolationSupported h (AllowNetwork_req r) = None)) \<and>
   RunSandboxHelper J abort (\<lambda>r p. (darwin_runIsolated r, p)) args p \<noteq> (None, q) \<and>
   RunSandboxHelper J abort (\<lambda>r p. (other_runIsolated goos r, p)) args p \<noteq> (None, q) \<and>
   linux_isolationHelperPath h \<noteq> Inr [] \<and> darwin_isolationHelperPath h' \<noteq> Inr [] \<and>
   other_isolationHelperPath goos \<noteq> Inr []"
proof (intro conjI impI)
  assume "RunSandboxHelper J abort (runIsolated h N F) args p = (None, q)"
  then show "\<exists>r. runIsolated h N F r p = (None, q) \<and> linux_isolationSupported h (AllowNetwork_req r) = None"
    by (rule linux.helper_ran)
next
  show "RunSandboxHelper J abort (\<lambda>r p. (darwin_runIsolated r, p)) args p \<noteq> (None, q)"
    using darwin.helper_ran [of J args p q] by (auto simp: darwin_runIsolated_def)
  show "RunSandboxHelper J abort (\<lambda>r p. (other_runIsolated goos r, p)) args p \<noteq> (None, q)"
    using elsewhere.helper_ran [of J goos args p q] by (auto simp: other_isolationSupported_def)
  show "linux_isolationHelperPath h \<noteq> Inr []" using linux.helper_named [of h "[]"] by blast
  show "darwin_isolationHelperPath h' \<noteq> Inr []" using darwin.helper_named [of h' "[]"] by blast
  show "other_isolationHelperPath goos \<noteq> Inr []" using elsewhere.helper_named [of goos "[]"] by blast
qed

theorem helper_fails_closed_witness:
  "\<exists>q r. runIsolated demo_linux demo_numbers no_faults r demo_proc = (None, q) \<and>
     linux_isolationSupported demo_linux (AllowNetwork_req r) = None"
proof -
  let ?J = "\<lparr>marshal_request = \<lambda>_. Some [], unmarshal_request = \<lambda>_. Some demo_request\<rparr>"
  have "p_next demo_proc = []" by (simp add: demo_proc_def)
  then obtain q where q: "runIsolated demo_linux demo_numbers no_faults demo_request demo_proc = (None, q)"
    using demo_run [OF demo_validated demo_request_valid] by blast
  have "RunSandboxHelper ?J abort (runIsolated demo_linux demo_numbers no_faults)
      [[], sandboxHelperArgument, EncodeToString []] = runIsolated demo_linux demo_numbers no_faults demo_request"
    by (simp add: RunSandboxHelper_def IsSandboxHelperInvocation_def Decode_Encode) (simp add: demo_request_def)
  with q have "RunSandboxHelper ?J abort (runIsolated demo_linux demo_numbers no_faults)
      [[], sandboxHelperArgument, EncodeToString []] demo_proc = (None, q)" by simp
  then show ?thesis using helper_fails_closed by blast
qed

end
