(* ===== verification/Jev.thy ===== *)
theory Jev
  imports Policy Output
begin

text \<open>
  \<^verbatim>\<open>internal/jev/jev.go\<close> and the verdict of \<^verbatim>\<open>cmd/paldron/main.go\<close> that uses it: the judgment of a
  run's output by a remote model. The environment and the HTTP exchange are arguments: what is
  sent, and how each answer (none, another status, a body that does not decode, answers missing)
  is treated, is modelled.
\<close>

section \<open>The judgment\<close>

definition maxStdoutChars :: nat where "maxStdoutChars = 8000"
definition maxStderrChars :: nat where "maxStderrChars = 4000"

definition defaultEndpoint :: string where
  "defaultEndpoint = ''https://api.typesafe.ai/v1/systemone''"

record RunContext =
  Argv :: "string list"
  ExitCode_rc :: i64
  Stdout_rc :: string
  Stderr_rc :: string

record Verdict =
  SecretExposure :: float64
  HostileAction :: float64

definition clampOutput :: "string \<Rightarrow> nat \<Rightarrow> string" where
  "clampOutput s m =
     (let r = runes s in if length r \<le> m then s else string_of_runes (take m r))"

text \<open>
  What is sent: the name of the model, the state and the two fixed questions, to an endpoint with a key.
\<close>

record jev_request =
  endpoint :: string
  key :: string
  model :: string
  state :: RunContext
  questions :: "string list"

text \<open>
  What comes back: a status, and the answers when the body decodes. An answer is an object with a
  member \<^verbatim>\<open>noul\<close>, or without one; decoding into the struct leaves a missing member at zero.
\<close>

record noulAnswer =
  Noul :: float64

definition decode_answer :: "float64 option \<Rightarrow> noulAnswer" where
  "decode_answer member = \<lparr>Noul = (case member of Some x \<Rightarrow> x | None \<Rightarrow> 0)\<rparr>"

record jev_reply =
  status :: nat
  answers :: "(string \<rightharpoonup> float64 option) option"

definition jev_message :: "(string \<Rightarrow> string) \<Rightarrow> RunContext \<Rightarrow> jev_request" where
  "jev_message env rc =
     \<lparr>endpoint = (if env ''JEV_API_URL'' = '''' then defaultEndpoint else env ''JEV_API_URL''),
      key = env ''JEV_API_KEY'',
      model = ''jev-latest'',
      state = rc\<lparr>Stdout_rc := clampOutput (Stdout_rc rc) maxStdoutChars,
                 Stderr_rc := clampOutput (Stderr_rc rc) maxStderrChars\<rparr>,
      questions = [''secret_exposure'', ''hostile_action'']\<rparr>"

text \<open>What the JSON encoding makes of it: bytes of the state that are not UTF-8 are replaced.\<close>

definition jev_encoded :: "jev_request \<Rightarrow> jev_request" where
  "jev_encoded m =
     m\<lparr>state := (state m)\<lparr>Argv := map to_valid (Argv (state m)), Stdout_rc := to_valid (Stdout_rc (state m)),
       Stderr_rc := to_valid (Stderr_rc (state m))\<rparr>\<rparr>"

definition JudgeOutput ::
    "(string \<Rightarrow> string) \<Rightarrow> (jev_request \<Rightarrow> (string, jev_reply) result) \<Rightarrow> RunContext \<Rightarrow> (string, Verdict) result"
where
  "JudgeOutput env post rc =
     (if env ''JEV_API_KEY'' = '''' then Inl ''jev: JEV_API_KEY is not set''
      else
        (case post (jev_encoded (jev_message env rc)) of
           Inl e \<Rightarrow> Inl (''jev: '' @ e)
         | Inr reply \<Rightarrow>
             if status reply \<noteq> 200 then Inl ''jev: endpoint returned another status''
             else
               (case answers reply of
                  None \<Rightarrow> Inl ''jev: decode response''
                | Some members \<Rightarrow>
                    let m = map_option decode_answer \<circ> members in
                    (case m ''secret_exposure'' of
                       None \<Rightarrow> Inl ''jev: response missing secret_exposure''
                     | Some secret \<Rightarrow>
                         (case m ''hostile_action'' of
                            None \<Rightarrow> Inl ''jev: response missing hostile_action''
                          | Some hostile \<Rightarrow> Inr \<lparr>SecretExposure = Noul secret, HostileAction = Noul hostile\<rparr>)))))"

section \<open>The verdict on a run\<close>

text \<open>The \<^verbatim>\<open>float64\<close> nearest to 0.7.\<close>

definition default_threshold :: float64 where
  "default_threshold = Fin (3152519739159347 / 4503599627370496)"

definition jev_threshold :: "Policy \<Rightarrow> float64" where
  "jev_threshold p = (if JevThreshold p \<le> 0 then default_threshold else JevThreshold p)"

definition jevOutputVerdict ::
    "unicode \<Rightarrow> (RunContext \<Rightarrow> (string, Verdict) result) \<Rightarrow> Policy \<Rightarrow> string list \<Rightarrow> ExecuteResult \<Rightarrow> string"
where
  "jevOutputVerdict U judge p argv res =
     (if \<not> JevVerdict p then ''''
      else
        (case judge \<lparr>Argv = argv, ExitCode_rc = ExitCode res, Stdout_rc = Stdout res, Stderr_rc = Stderr res\<rparr> of
           Inl e \<Rightarrow>
             if EqualFold U (JevOnError p) ''allow'' then ''''
             else ''jev verdict unavailable: '' @ e
         | Inr v \<Rightarrow>
             let threshold = jev_threshold p in
             if threshold \<le> SecretExposure v then ''jev verdict: output exposes secrets''
             else if threshold \<le> HostileAction v then ''jev verdict: output shows hostile action''
             else ''''))"

lemma length_runes: "length (runes s) \<le> length s"
  by (simp add: runes_def length_chunks)

lemma clamp_short: "length (runes s) \<le> m \<Longrightarrow> clampOutput s m = s"
  by (simp add: clampOutput_def)

lemma runes_clamp: "runes (clampOutput s m) = take m (runes s)"
proof (cases "length (runes s) \<le> m")
  case True
  then show ?thesis by (simp add: clampOutput_def)
next
  case False
  have "list_all valid_rune (take m (runes s))"
    using runes_valid [of s] by (auto simp: list_all_iff dest: in_set_takeD)
  with False show ?thesis by (simp add: clampOutput_def Let_def runes_string_of_runes)
qed

section \<open>Properties\<close>

text \<open>
  A judgment is given exactly when there is a key, the endpoint answers 200 and both
  questions have an answer object in a body that decodes. Its numbers are those of the answers,
  or zero where an answer has no number.
\<close>
theorem JudgeOutput_iff:
  "JudgeOutput env post rc = Inr v \<longleftrightarrow>
     env ''JEV_API_KEY'' \<noteq> '''' \<and>
     (\<exists>reply m. post (jev_encoded (jev_message env rc)) = Inr reply \<and> status reply = 200 \<and> answers reply = Some m \<and>
        (\<exists>a b. m ''secret_exposure'' = Some a \<and> m ''hostile_action'' = Some b \<and>
           SecretExposure v = (case a of Some x \<Rightarrow> x | None \<Rightarrow> 0) \<and>
           HostileAction v = (case b of Some x \<Rightarrow> x | None \<Rightarrow> 0)))"
proof (cases "post (jev_encoded (jev_message env rc))")
  case (Inl e)
  then show ?thesis by (simp add: JudgeOutput_def)
next
  case (Inr reply)
  then show ?thesis
    by (cases v) (auto simp: JudgeOutput_def Let_def decode_answer_def split: option.splits)
qed

text \<open>
  The output verdict passes a run exactly when it is not enabled, when no judgment
  could be had and the policy says to allow that, or when neither number reaches the threshold.
\<close>
theorem jevOutputVerdict_passes_iff:
  "jevOutputVerdict U judge p argv res = '''' \<longleftrightarrow>
     \<not> JevVerdict p \<or>
     (case judge \<lparr>Argv = argv, ExitCode_rc = ExitCode res, Stdout_rc = Stdout res, Stderr_rc = Stderr res\<rparr> of
        Inl e \<Rightarrow> EqualFold U (JevOnError p) ''allow''
      | Inr v \<Rightarrow> \<not> jev_threshold p \<le> SecretExposure v \<and> \<not> jev_threshold p \<le> HostileAction v)"
  by (auto simp: jevOutputVerdict_def Let_def split: sum.splits)

text \<open>
  Property C33: what leaves the machine is bounded. Read as runes, the outputs sent are the first
  8000 of standard output and the first 4000 of standard error, never a rune cut in half; an
  output within its cap is handed over byte for byte, and the command line and exit code are the
  run's own. The JSON encoding of this state replaces bytes that are not UTF-8 and leaves the
  bounds as they are.
\<close>
theorem jev_message_capped:
  "let sent = state (jev_message env rc); coded = state (jev_encoded (jev_message env rc)) in
     runes (Stdout_rc sent) = take 8000 (runes (Stdout_rc rc)) \<and>
     runes (Stderr_rc sent) = take 4000 (runes (Stderr_rc rc)) \<and>
     (length (runes (Stdout_rc rc)) \<le> 8000 \<longrightarrow> Stdout_rc sent = Stdout_rc rc) \<and>
     (length (runes (Stderr_rc rc)) \<le> 4000 \<longrightarrow> Stderr_rc sent = Stderr_rc rc) \<and>
     Argv sent = Argv rc \<and> ExitCode_rc sent = ExitCode_rc rc \<and>
     runes (Stdout_rc coded) = take 8000 (runes (Stdout_rc rc)) \<and> valid_utf8 (Stdout_rc coded) \<and>
     runes (Stderr_rc coded) = take 4000 (runes (Stderr_rc rc)) \<and> valid_utf8 (Stderr_rc coded) \<and>
     Argv coded = map to_valid (Argv rc) \<and> ExitCode_rc coded = ExitCode_rc rc"
proof -
  have sent: "state (jev_message env rc) = rc\<lparr>Stdout_rc := clampOutput (Stdout_rc rc) 8000,
      Stderr_rc := clampOutput (Stderr_rc rc) 4000\<rparr>"
    by (simp add: jev_message_def maxStdoutChars_def maxStderrChars_def)
  show ?thesis unfolding jev_encoded_def Let_def by (simp add: sent runes_clamp clamp_short valid_utf8_def)
qed

theorem jev_message_capped_witness:
  "Stdout_rc (state (jev_message (\<lambda>_. '''') \<lparr>Argv = [''ls''], ExitCode_rc = 0, Stdout_rc = ''a'', Stderr_rc = ''''\<rparr>)) = ''a''"
proof -
  have "length (runes ''a'') \<le> 8000"
    using length_runes [of "''a''"] by simp
  then show ?thesis
    using jev_message_capped [of "\<lambda>_. ''''" "\<lparr>Argv = [''ls''], ExitCode_rc = 0, Stdout_rc = ''a'', Stderr_rc = ''''\<rparr>"]
    by (simp add: Let_def)
qed

text \<open>
  Property C37: the package guesses. A reply whose two answers are objects without a number is no
  error: it is the judgment zero and zero, and whatever the policy says of errors the run passes
  under every threshold that is a number.
\<close>
theorem numberless_answers_pass:
  assumes "env ''JEV_API_KEY'' \<noteq> ''''"
    and "post (jev_encoded (jev_message env
        \<lparr>Argv = argv, ExitCode_rc = ExitCode res, Stdout_rc = Stdout res, Stderr_rc = Stderr res\<rparr>))
      = Inr \<lparr>status = 200, answers = Some [''secret_exposure'' \<mapsto> None, ''hostile_action'' \<mapsto> None]\<rparr>"
  shows "jevOutputVerdict U (JudgeOutput env post) p argv res = ''''"
proof -
  have "JudgeOutput env post \<lparr>Argv = argv, ExitCode_rc = ExitCode res, Stdout_rc = Stdout res, Stderr_rc = Stderr res\<rparr>
      = Inr \<lparr>SecretExposure = 0, HostileAction = 0\<rparr>"
    using assms by (simp add: JudgeOutput_def decode_answer_def)
  moreover have "\<not> jev_threshold p \<le> 0"
    by (simp add: jev_threshold_def default_threshold_def zero_float64_def)
  ultimately show ?thesis by (simp add: jevOutputVerdict_def Let_def)
qed

theorem numberless_answers_pass_witness:
  "jevOutputVerdict ascii_only
     (JudgeOutput (\<lambda>_. ''k'') (\<lambda>_. Inr \<lparr>status = 200, answers = Some [''secret_exposure'' \<mapsto> None, ''hostile_action'' \<mapsto> None]\<rparr>))
     (DefaultPolicy\<lparr>JevVerdict := True, JevOnError := ''deny''\<rparr>) [''env'']
     \<lparr>Stdout = ''AWS_SECRET=x'', Stderr = '''', ExitCode = 0, TimedOut = False, Error = ''''\<rparr> = ''''"
  by (rule numberless_answers_pass) simp_all

text \<open>
  A policy whose threshold is not a number loads, and then no judgment, however
  certain, is ever held against a run.
\<close>
theorem nan_threshold_passes:
  assumes "JevThreshold p = NaN"
  shows "(ReadFile path = Some data \<and> toml_keys T data = Some ks \<and> set ks \<subseteq> set knownPolicyKeys \<and>
       toml_into T data DefaultPolicy = Some p \<and> JevOnError p = '''' \<longrightarrow> LoadPolicy ReadFile T path = Inr p) \<and>
     jevOutputVerdict U (\<lambda>_. Inr v) p argv res = ''''"
proof -
  have "find (\<lambda>k. k \<notin> set knownPolicyKeys) ks = None" if "set ks \<subseteq> set knownPolicyKeys"
    using that by (auto simp: find_None_iff simp del: not_None_eq)
  then show ?thesis
    using assms by (auto simp: LoadPolicy_def jevOutputVerdict_def jev_threshold_def Let_def)
qed

theorem nan_threshold_passes_witness:
  "LoadPolicy (\<lambda>_. Some '''') \<lparr>toml_keys = \<lambda>_. Some [''jev_threshold''],
       toml_into = \<lambda>_ _. Some (DefaultPolicy\<lparr>JevVerdict := True, JevThreshold := NaN\<rparr>)\<rparr> ''p''
     = Inr (DefaultPolicy\<lparr>JevVerdict := True, JevThreshold := NaN\<rparr>)"
  using nan_threshold_passes [of "DefaultPolicy\<lparr>JevVerdict := True, JevThreshold := NaN\<rparr>" "\<lambda>_. Some ''''" "''p''" "''''"
    "\<lparr>toml_keys = \<lambda>_. Some [''jev_threshold''],
       toml_into = \<lambda>_ _. Some (DefaultPolicy\<lparr>JevVerdict := True, JevThreshold := NaN\<rparr>)\<rparr>" "[''jev_threshold'']"]
  by (simp add: knownPolicyKeys_def DefaultPolicy_def)

end
