(* ===== verification/Scan.thy ===== *)
theory Scan
  imports Policy
begin

text \<open>
  \<open>scanOutputs\<close> of \<^verbatim>\<open>cmd/paldron/main.go\<close>: the verdict on the files a run left behind. The directory
  tree as \<^verbatim>\<open>filepath.WalkDir\<close> meets it is an argument; the walk, with the callback and its early
  returns, is modelled and shown to give the first hit of the list of files below the root.
\<close>

section \<open>The walk\<close>

text \<open>
  What \<^verbatim>\<open>Lstat\<close> and \<^verbatim>\<open>ReadDir\<close> give, in the order of \<^verbatim>\<open>ReadDir\<close>: anything but a directory, symbolic
  links to directories included, is a \<open>Leaf\<close> with its modification time, when \<^verbatim>\<open>Info\<close> has it.
\<close>

datatype node =
    Leaf "int option"
  | Folder "(string \<times> node) list"

definition skipped_dirs :: "string list" where
  "skipped_dirs = [''.annalist'', ''.git'']"

text \<open>The callback on a file: the new hit, or the empty string.\<close>

definition visit_file :: "string \<Rightarrow> Policy \<Rightarrow> int \<Rightarrow> string \<Rightarrow> int option \<Rightarrow> string" where
  "visit_file ws p start path info =
     (case info of
        None \<Rightarrow> ''''
      | Some mtime \<Rightarrow>
          if mtime < start then ''''
          else
            (case Rel ws path of
               None \<Rightarrow> ''''
             | Some r \<Rightarrow>
                 let rel = ToSlash r in
                 if list_ex (\<lambda>g. globMatch g rel) (DenyGlobs p) then rel @ '' (policy deny_glob)''
                 else if list_ex (\<lambda>g. globMatch g rel) DefaultSecretGlobs then rel @ '' (secret)''
                 else ''''))"

fun walkDir :: "(string \<Rightarrow> int option \<Rightarrow> string) \<Rightarrow> string \<Rightarrow> string \<Rightarrow> node \<Rightarrow> string \<Rightarrow> string"
  and walkEntries :: "(string \<Rightarrow> int option \<Rightarrow> string) \<Rightarrow> string \<Rightarrow> (string \<times> node) list \<Rightarrow> string \<Rightarrow> string"
where
  "walkDir visit path name (Leaf info) hit = (if hit \<noteq> '''' then hit else visit path info)"
| "walkDir visit path name (Folder entries) hit =
     (if hit = '''' \<and> name \<in> set skipped_dirs then hit else walkEntries visit path entries hit)"
| "walkEntries visit path [] hit = hit"
| "walkEntries visit path ((name, d) # entries) hit =
     walkEntries visit path entries (walkDir visit (Join [path, name]) name d hit)"

text \<open>\<open>tree\<close> is what there is at the root, if anything.\<close>

definition scanOutputs :: "string \<Rightarrow> Policy \<Rightarrow> int \<Rightarrow> node option \<Rightarrow> string" where
  "scanOutputs ws p start tree =
     (case tree of
        None \<Rightarrow> ''''
      | Some d \<Rightarrow> walkDir (visit_file ws p start) ws (Base ws) d '''')"

section \<open>The files below the root\<close>

text \<open>The reference: the files in walk order, each with the names that lead to it.\<close>

fun scanned :: "string \<Rightarrow> node \<Rightarrow> (string list \<times> int option) list"
  and scanned_entries :: "(string \<times> node) list \<Rightarrow> (string list \<times> int option) list"
where
  "scanned name (Leaf info) = [([], info)]"
| "scanned name (Folder entries) = (if name \<in> set skipped_dirs then [] else scanned_entries entries)"
| "scanned_entries [] = []"
| "scanned_entries ((name, d) # entries) =
     map (\<lambda>(names, info). (name # names, info)) (scanned name d) @ scanned_entries entries"

fun well_named :: "node \<Rightarrow> bool"
  and well_named_entries :: "(string \<times> node) list \<Rightarrow> bool"
where
  "well_named (Leaf info) = True"
| "well_named (Folder entries) = well_named_entries entries"
| "well_named_entries [] = True"
| "well_named_entries ((name, d) # entries) = (plain_elem name \<and> well_named d \<and> well_named_entries entries)"

definition path_below :: "string \<Rightarrow> string list \<Rightarrow> string" where
  "path_below path names = foldl (\<lambda>d name. Join [d, name]) path names"

lemma path_below_simps [simp]:
  "path_below path [] = path" "path_below path (n # ns) = path_below (Join [path, n]) ns"
  by (simp_all add: path_below_def)

lemma walk_done:
  "hit \<noteq> '''' \<Longrightarrow> walkDir visit path name d hit = hit"
  "hit \<noteq> '''' \<Longrightarrow> walkEntries visit path entries hit = hit"
  by (induction visit path name d hit and visit path entries hit rule: walkDir_walkEntries.induct) auto

text \<open>The hit a list of files gives: that of the first file with one.\<close>

fun first_hit :: "('a \<Rightarrow> string) \<Rightarrow> 'a list \<Rightarrow> string" where
  "first_hit f [] = ''''"
| "first_hit f (x # xs) = (if f x \<noteq> '''' then f x else first_hit f xs)"

lemma first_hit_append: "first_hit f (xs @ ys) = (if first_hit f xs \<noteq> '''' then first_hit f xs else first_hit f ys)"
  by (induction xs) auto

lemma first_hit_map: "first_hit f (map g xs) = first_hit (f \<circ> g) xs"
  by (induction xs) auto

lemma first_hit_Nil: "first_hit f xs = '''' \<longleftrightarrow> (\<forall>x \<in> set xs. f x = '''')"
  by (induction xs) auto

lemma walk_first_hit:
  "hit = '''' \<Longrightarrow> walkDir visit path name d hit
     = first_hit (\<lambda>(names, info). visit (path_below path names) info) (scanned name d)"
  "hit = '''' \<Longrightarrow> walkEntries visit path entries hit
     = first_hit (\<lambda>(names, info). visit (path_below path names) info) (scanned_entries entries)"
proof (induction visit path name d hit and visit path entries hit rule: walkDir_walkEntries.induct)
  case (4 visit path name d entries hit)
  have f: "(\<lambda>(names, info). visit (path_below path names) info) \<circ> (\<lambda>(names, info). (name # names, info))
      = (\<lambda>(names, info). visit (path_below (Join [path, name]) names) info)"
    by (auto simp: fun_eq_iff)
  show ?case
  proof (cases "walkDir visit (Join [path, name]) name d hit = ''''")
    case True
    with 4 show ?thesis by (simp add: first_hit_append first_hit_map f)
  next
    case False
    with 4 show ?thesis by (simp add: first_hit_append first_hit_map f walk_done)
  qed
qed auto

text \<open>The path of a file relative to the root is its names.\<close>

lemma clean_elems_plain: "plain_elem n \<Longrightarrow> clean_elems n = [n] \<and> \<not> IsAbs n"
proof
  assume n: "plain_elem n"
  then show a: "\<not> IsAbs n" by (cases n) (auto simp: plain_elem_def IsAbs_def)
  have "Split n slash = [n]" using n split_join [of "[n]" slash] by (simp add: plain_elem_def)
  then show "clean_elems n = [n]" using n a clean_stack_plain [of "[n]" False "[]"] by (simp only: clean_elems_def list.set ball_simps rev.simps append_Nil simp_thms)
qed

lemma Join_plain:
  assumes "IsAbs path" "plain_elem n"
  shows "IsAbs (Join [path, n]) \<and> clean_elems (Join [path, n]) = clean_elems path @ [n]"
proof -
  have "path \<noteq> ''''" using assms(1) by (auto simp: IsAbs_def)
  then have j: "Join [path, n] = Clean (path @ slash # n)" by (simp add: Join_def)
  have "IsAbs (path @ slash # n)" using assms(1) by (auto simp: IsAbs_def prefix_def)
  moreover have "clean_elems (path @ slash # n) = clean_elems path @ clean_elems n"
    using assms(1) clean_elems_plain [OF assms(2)] assms(2)
    by (intro clean_elems_under) (auto simp: plain_elem_def)
  ultimately show ?thesis using clean_elems_plain [OF assms(2)] unfolding j by (simp add: clean_elems_Clean)
qed

lemma path_below_elems:
  "IsAbs path \<Longrightarrow> \<forall>n \<in> set names. plain_elem n \<Longrightarrow>
     IsAbs (path_below path names) \<and> clean_elems (path_below path names) = clean_elems path @ names"
proof (induction names arbitrary: path)
  case (Cons n names)
  then show ?case using Join_plain [of path n] by simp
qed simp

lemma Rel_path_below:
  assumes "IsAbs ws" "\<forall>n \<in> set names. plain_elem n"
  shows "Rel ws (path_below ws names) = Some (path_of names)"
  using path_below_elems [OF assms] assms(1) by (auto simp: path_of_def Rel_below)

lemma scanned_names:
  "well_named d \<Longrightarrow> (names, info) \<in> set (scanned name d) \<Longrightarrow> \<forall>n \<in> set names. plain_elem n"
  "well_named_entries entries \<Longrightarrow> (names, info) \<in> set (scanned_entries entries) \<Longrightarrow> \<forall>n \<in> set names. plain_elem n"
proof (induction name d and entries arbitrary: names and names rule: scanned_scanned_entries.induct)
  case (4 name d entries)
  then show ?case by fastforce
qed (auto split: if_splits)

text \<open>A file that makes the scan deny: written since the start, at a path a glob matches.\<close>

definition produced :: "Policy \<Rightarrow> int \<Rightarrow> string list \<times> int option \<Rightarrow> bool" where
  "produced p start f \<longleftrightarrow>
     (case f of (names, info) \<Rightarrow>
        (\<exists>mtime. info = Some mtime \<and> start \<le> mtime) \<and>
        (\<exists>g \<in> set (DenyGlobs p @ DefaultSecretGlobs). globMatch g (path_of names)))"

definition report :: "Policy \<Rightarrow> string \<Rightarrow> string" where
  "report p rel =
     (if \<exists>g \<in> set (DenyGlobs p). globMatch g rel then rel @ '' (policy deny_glob)'' else rel @ '' (secret)'')"

lemma visit_produced:
  assumes "IsAbs ws" "\<forall>n \<in> set names. plain_elem n"
  shows "visit_file ws p start (path_below ws names) info
    = (if produced p start (names, info) then report p (path_of names) else '''')"
  using assms
  by (auto simp: visit_file_def Rel_path_below produced_def report_def list_ex_iff Let_def split: option.splits)

lemma first_hit_find:
  assumes "\<forall>x \<in> set xs. f x = (if P x then r x else '''')" "\<forall>x. r x \<noteq> ''''"
  shows "first_hit f xs = (case find P xs of None \<Rightarrow> '''' | Some x \<Rightarrow> r x)"
  using assms by (induction xs) auto

section \<open>Properties\<close>

text \<open>
  Property C9: the walk finds the first offending file. On an absolute workspace the report names
  the first file, in walk order and outside \<^verbatim>\<open>.git\<close> and \<^verbatim>\<open>.annalist\<close> directories, that was modified
  since the start at a path a deny glob or a secret glob matches; there is none exactly when the
  report is empty.
\<close>
theorem scanOutputs_first:
  assumes "IsAbs ws" "well_named d"
  shows "scanOutputs ws p start (Some d) =
     (case find (produced p start) (scanned (Base ws) d) of
        None \<Rightarrow> '''' | Some (names, info) \<Rightarrow> report p (path_of names))"
proof -
  have "scanOutputs ws p start (Some d) = first_hit
      (\<lambda>(names, info). visit_file ws p start (path_below ws names) info) (scanned (Base ws) d)"
    by (simp add: scanOutputs_def walk_first_hit)
  also have "\<dots> = (case find (produced p start) (scanned (Base ws) d) of
        None \<Rightarrow> '''' | Some x \<Rightarrow> (\<lambda>(names, info). report p (path_of names)) x)"
  proof (rule first_hit_find)
    show "\<forall>x. (\<lambda>(names, info). report p (path_of names)) x \<noteq> ''''" by (auto simp: report_def)
    show "\<forall>x \<in> set (scanned (Base ws) d). (\<lambda>(names, info). visit_file ws p start (path_below ws names) info) x
        = (if produced p start x then (\<lambda>(names, info). report p (path_of names)) x else '''')"
      using scanned_names(1) [OF assms(2)] visit_produced [OF assms(1)] by (auto split: prod.splits)
  qed
  finally show ?thesis by (simp add: case_prod_unfold)
qed

lemma default_produced:
  assumes "names \<noteq> []" "\<forall>n \<in> set names. plain_elem n" "CHR ''*'' \<notin> set (last names)"
  shows "produced DefaultPolicy start (names, Some mtime) \<longleftrightarrow> start \<le> mtime \<and> secret_elems names"
  using secret_globs [of names] assms by (auto simp: produced_def DefaultPolicy_def plain_elem_def list_ex_iff)

theorem scanOutputs_first_witness:
  "scanOutputs ''/w'' DefaultPolicy 5
     (Some (Folder [(''.git'', Folder [(''.env'', Leaf (Some 9))]), (''a.txt'', Leaf (Some 9)),
                    (''sub'', Folder [(''.env'', Leaf (Some 7))])])) = ''sub/.env (secret)''"
proof -
  let ?d = "Folder [(''.git'', Folder [(''.env'', Leaf (Some 9))]), (''a.txt'', Leaf (Some 9)),
                    (''sub'', Folder [(''.env'', Leaf (Some 7))])]"
  have "scanned (Base ''/w'') ?d = [([''a.txt''], Some 9), ([''sub'', ''.env''], Some 7)]"
    by (simp add: skipped_dirs_def Base_def TrimRight_def last_elem_def Let_def)
  moreover have "\<not> produced DefaultPolicy 5 ([''a.txt''], Some 9)" "produced DefaultPolicy 5 ([''sub'', ''.env''], Some 7)"
    by (simp_all add: default_produced plain_elem_def secret_elems_def suffix_def prefix_def)
  moreover have "IsAbs ''/w''" "well_named ?d" by (simp_all add: IsAbs_def plain_elem_def)
  ultimately show ?thesis
    using scanOutputs_first [of "''/w''" ?d DefaultPolicy 5]
    by (simp add: report_def DefaultPolicy_def path_of_def)
qed



end
