(* ===== verification/Tool_Check.thy ===== *)
theory Tool_Check
  imports Guardrail Policy Host
begin

text \<open>
  The command \<^verbatim>\<open>paldron check\<close> of \<^verbatim>\<open>cmd/paldron/main.go\<close>: the built-in tool contracts, the guardrail
  made from a policy, which arguments are taken for paths, and the verdict on a tool call. The
  results of the commands, with the exit statuses, are here too.
\<close>

section \<open>Exit statuses\<close>

text \<open>Why a command does not allow: the message printed, by its kind.\<close>

datatype reason =
    BadJSON
  | NoWorkingDirectory
  | ToolRefused check_error
  | PathRefused string string
  | BinaryRefused string
  | HelperUnavailable string
  | IsolationUnavailable string
  | IsolationInactive
  | SandboxFailed string
  | CommandTimedOut
  | CommandExited i64
  | OutputRefused string
  | JudgmentRefused string
  | UnknownTool string
  | SchemaNotEncoded
  | PolicyRefused policy_error
  | HelperFailed string
  | FlagNeedsValue string
  | Usage string

datatype exit = Exit (exit_status: nat) (why: "reason option")

definition fail :: "reason \<Rightarrow> exit" where
  "fail msg = Exit 1 (Some msg)"

definition deny :: "reason \<Rightarrow> exit" where
  "deny msg = Exit 2 (Some msg)"

definition allow :: exit where
  "allow = Exit 0 None"

lemma exit_simps [simp]:
  "fail r \<noteq> allow" "deny r \<noteq> allow" "allow \<noteq> fail r" "allow \<noteq> deny r"
  "exit_status (fail r) = 1" "exit_status (deny r) = 2" "exit_status allow = 0"
  by (simp_all add: fail_def deny_def allow_def)

section \<open>The built-in tools\<close>

definition str_param :: "string \<Rightarrow> JSONSchema" where
  "str_param desc = JSONSchema ''string'' desc None [] None [] None None None"

definition mk_tool :: "unicode \<Rightarrow> string \<Rightarrow> string \<Rightarrow> (string \<times> JSONSchema) list \<Rightarrow> string list \<Rightarrow> ToolDefinition"
where
  "mk_tool U name desc params required =
     \<lparr>Name = name, Description_td = desc, Parameters = Some (ObjectSchema U (Some params) required), ArgsSchema = ''''\<rparr>"

definition builtinDefs :: "unicode \<Rightarrow> (string \<times> ToolDefinition) list" where
  "builtinDefs U =
     [(''read_file'', mk_tool U ''read_file'' ''Read file contents from an allowed directory''
         [(''path'', str_param ''Absolute path to the file'')] [''path'']),
      (''write_file'', mk_tool U ''write_file'' ''Write content to a file in an allowed directory''
         [(''path'', str_param ''Absolute path to the file''),
          (''content'', str_param ''Complete content to write'')] [''path'', ''content'']),
      (''edit_file'', mk_tool U ''edit_file'' ''Replace the first occurrence of old_text with new_text in a file''
         [(''path'', str_param ''Absolute path to the file''),
          (''old_text'', str_param ''Exact text to replace''),
          (''new_text'', str_param ''Replacement text'')] [''path'', ''old_text'', ''new_text'']),
      (''list_dir'', mk_tool U ''list_dir'' ''List files and directories at a path''
         [(''path'', str_param ''Absolute directory path'')] [''path'']),
      (''execute_code'', mk_tool U ''execute_code''
         ''Execute a single binary command in a sandboxed directory. Shell chaining, pipes, redirects, and subshells are blocked.''
         [(''command'', str_param ''Single command with no shell operators''),
          (''dir'', str_param ''Absolute working directory'')] [''command'', ''dir''])]"

text \<open>The map of definitions is iterated in some order; the names in it are distinct.\<close>

definition newPaldron :: "json_lib \<Rightarrow> unicode \<Rightarrow> Policy \<Rightarrow> Paldron" where
  "newPaldron L U p =
     fold (\<lambda>(name, def). RegisterDefinition L U def) (builtinDefs U)
       (New \<lparr>EnableGuardrails = True, BlockedCommands = [], NetworkAllowed = AllowNetwork p\<rparr>)"

section \<open>Arguments as paths\<close>

definition looksLikePath :: "host \<Rightarrow> string \<Rightarrow> string \<Rightarrow> bool" where
  "looksLikePath h cwd s =
     (if IsAbs s \<or> HasPrefix s ''~'' then True
      else if ContainsAny s [slash, CHR 0x5C] then True
      else if ContainsAny s [CHR '' '', CHR 0x09, CHR 0x0A, CHR 0x0D] then True
      else if HasPrefix s ''.'' then True
      else if Ext s \<noteq> '''' then True
      else if StatDir h (Join [cwd, s]) \<noteq> None then True
      else False)"

text \<open>The body of the loops over string arguments: flags and words are passed over.\<close>

definition path_gate :: "host \<Rightarrow> Policy \<Rightarrow> string \<Rightarrow> string \<Rightarrow> reason option" where
  "path_gate h p cwd s =
     (if s = '''' \<or> HasPrefix s ''-'' then None
      else if \<not> looksLikePath h cwd s then None
      else if EvalPath p cwd s \<noteq> '''' then Some (PathRefused s (EvalPath p cwd s))
      else None)"

section \<open>A tool call\<close>

text \<open>
  Decoding into \<^verbatim>\<open>map[string]any\<close>: numbers become \<^verbatim>\<open>float64\<close> (an error when out of range), the last
  of repeated keys wins, and \<^verbatim>\<open>null\<close> gives a nil map.
\<close>

fun any_value :: "json_lib \<Rightarrow> json \<Rightarrow> goval option"
  and any_values :: "json_lib \<Rightarrow> json list \<Rightarrow> goval list option"
  and any_fields :: "json_lib \<Rightarrow> (string \<times> json) list \<Rightarrow> (string \<times> goval) list option"
where
  "any_value L JNull = Some VNil"
| "any_value L (JBool b) = Some (VBool b)"
| "any_value L (JNum n) = map_option VFloat (json_float L n)"
| "any_value L (JStr s) = Some (VStr s)"
| "any_value L (JArr js) = map_option VArr (any_values L js)"
| "any_value L (JObj kvs) = map_option (\<lambda>fs. VObj (AList.clearjunk (rev fs))) (any_fields L kvs)"
| "any_values L [] = Some []"
| "any_values L (j # js) =
     (case any_value L j of None \<Rightarrow> None | Some v \<Rightarrow> map_option (Cons v) (any_values L js))"
| "any_fields L [] = Some []"
| "any_fields L ((k, j) # kvs) =
     (case any_value L j of None \<Rightarrow> None | Some v \<Rightarrow> map_option (Cons (k, v)) (any_fields L kvs))"

definition decode_args :: "json_lib \<Rightarrow> string \<Rightarrow> (string \<times> goval) list option" where
  "decode_args L rawArgs =
     (case json_parse L rawArgs of
        Some (JObj kvs) \<Rightarrow> map_option (\<lambda>fs. AList.clearjunk (rev fs)) (any_fields L kvs)
      | Some JNull \<Rightarrow> Some []
      | _ \<Rightarrow> None)"

definition runCheck :: "json_lib \<Rightarrow> unicode \<Rightarrow> host \<Rightarrow> Policy \<Rightarrow> string \<Rightarrow> string \<Rightarrow> exit" where
  "runCheck L U h p toolName rawArgs =
     (case decode_args L rawArgs of
        None \<Rightarrow> fail BadJSON
      | Some args \<Rightarrow>
          (case Check U (newPaldron L U p) (Some \<lparr>ToolName = toolName, Args = args\<rparr>) of
             Some e \<Rightarrow> deny (ToolRefused e)
           | None \<Rightarrow>
               (case Getwd h of
                  None \<Rightarrow> fail NoWorkingDirectory
                | Some cwd \<Rightarrow>
                    (case first_error (\<lambda>(key, val). case val of VStr s \<Rightarrow> path_gate h p cwd s | _ \<Rightarrow> None) args of
                       Some r \<Rightarrow> deny r
                     | None \<Rightarrow> allow))))"

section \<open>The guardrail of a policy\<close>

lemma builtin_names: "map fst (builtinDefs U) = [''read_file'', ''write_file'', ''edit_file'', ''list_dir'', ''execute_code'']"
  by (simp add: builtinDefs_def)

lemma builtin_keyed: "(n, d) \<in> set (builtinDefs U) \<Longrightarrow> Name d = n"
  by (auto simp: builtinDefs_def mk_tool_def)

text \<open>Registering definitions under distinct names: each is found by its own name.\<close>

lemma fold_register_rest:
  "cfg (fold (\<lambda>(n, d). RegisterDefinition L U d) ds g) = cfg g \<and>
   isolatedExecutionAvailable (fold (\<lambda>(n, d). RegisterDefinition L U d) ds g) = isolatedExecutionAvailable g"
proof (induction ds arbitrary: g)
  case (Cons x ds)
  have "cfg (RegisterDefinition L U (snd x) g) = cfg g"
    "isolatedExecutionAvailable (RegisterDefinition L U (snd x) g) = isolatedExecutionAvailable g"
    by (simp_all add: RegisterDefinition_def RegisterJSONSchema_def)
  with Cons [of "RegisterDefinition L U (snd x) g"] show ?case by (simp add: split_def)
qed simp

lemma fold_register:
  "distinct (map fst ds) \<Longrightarrow> \<forall>(n, d) \<in> set ds. Name d = n \<Longrightarrow>
   schemas (fold (\<lambda>(n, d). RegisterDefinition L U d) ds g) name
      = (case map_of ds name of Some d \<Rightarrow> Some (Canonical U (CanonicalSchema L U d)) | None \<Rightarrow> schemas g name)"
proof (induction ds arbitrary: g)
  case (Cons x ds)
  obtain n d where x: "x = (n, d)" by (cases x)
  have nd: "Name d = n" "map_of ds n = None" using Cons.prems x by (auto simp: map_of_eq_None_iff)
  have "schemas (fold (\<lambda>(n, d). RegisterDefinition L U d) ds (RegisterDefinition L U d g)) name
      = (case map_of ds name of Some d \<Rightarrow> Some (Canonical U (CanonicalSchema L U d))
         | None \<Rightarrow> schemas (RegisterDefinition L U d g) name)"
    using Cons by auto
  moreover have "schemas (RegisterDefinition L U d g) = (schemas g)(n \<mapsto> Canonical U (CanonicalSchema L U d))"
    using nd(1) by (simp add: RegisterDefinition_def RegisterJSONSchema_def)
  ultimately show ?case using x nd(2) by (auto split: option.splits)
qed simp

lemma newPaldron_state:
  "schemas (newPaldron L U p) name = map_option (\<lambda>d. Canonical U (CanonicalSchema L U d)) (map_of (builtinDefs U) name)"
  "cfg (newPaldron L U p) = \<lparr>EnableGuardrails = True, BlockedCommands = [], NetworkAllowed = AllowNetwork p\<rparr>"
  "\<not> isolatedExecutionAvailable (newPaldron L U p)"
proof -
  have d: "distinct (map fst (builtinDefs U))" unfolding builtin_names by simp
  have k: "\<forall>(n, d) \<in> set (builtinDefs U). Name d = n" using builtin_keyed by blast
  show "schemas (newPaldron L U p) name
      = map_option (\<lambda>d. Canonical U (CanonicalSchema L U d)) (map_of (builtinDefs U) name)"
    unfolding newPaldron_def fold_register [OF d k] by (simp add: New_def split: option.splits)
  show "cfg (newPaldron L U p) = \<lparr>EnableGuardrails = True, BlockedCommands = [], NetworkAllowed = AllowNetwork p\<rparr>"
    unfolding newPaldron_def by (simp add: fold_register_rest New_def)
  show "\<not> isolatedExecutionAvailable (newPaldron L U p)"
    unfolding newPaldron_def by (simp add: fold_register_rest New_def)
qed

text \<open>
  A tool whose parameters are all required strings admits the objects with exactly these keys
  and string values.
\<close>

lemma canonical_str_param:
  "Canonical U (str_param desc) = JSONSchema ''string'' (TrimSpace desc) None [] None [] None None None"
proof -
  have "trimmed ''string''" by (rule graphic_trimmed) (simp add: graphic_def)
  then have "canonical_type U ''string'' = ''string''"
    by (simp add: canonical_type_def trimmed_TrimSpace ToLower_ascii_map lower_byte_def)
  then show ?thesis unfolding str_param_def Canonical_eq by simp
qed

lemma conforms_string_schema:
  "conforms v (JSONSchema ''string'' desc None [] None [] None None None) \<longleftrightarrow> (\<exists>s. v = VStr s)"
  using conforms_typed(2) [of v "JSONSchema ''string'' desc None [] None [] None None None"]
  by (simp add: enum_ok_def)

definition string_args :: "string list \<Rightarrow> (string \<times> goval) list \<Rightarrow> bool" where
  "string_args names args \<longleftrightarrow>
     dom (map_of args) = set names \<and> (\<forall>k v. map_of args k = Some v \<longrightarrow> (\<exists>s. v = VStr s))"

lemma conforms_mk_tool:
  assumes "\<forall>(k, s) \<in> set params. s \<in> range str_param" "set required = fst ` set params"
    and "\<forall>k \<in> set required. graphic k \<and> k \<noteq> ''''" "ascii_types (JSONSchema ''object'' '''' (Some params) required None [] None None (Some False))"
  shows "conforms_args args (Canonical U (CanonicalSchema L U (mk_tool U name desc params required)))
    \<longleftrightarrow> string_args required args"
proof -
  let ?s = "ObjectSchema U (Some params) required"
  have idem: "Canonical U ?s = ?s" unfolding ObjectSchema_def by (rule canon.idem [OF assms(4)])
  then have c: "Canonical U (CanonicalSchema L U (mk_tool U name desc params required)) = ?s"
    by (simp add: CanonicalSchema_def mk_tool_def)
  have "{TrimSpace n |n. n \<in> set required} = set required"
    using assms(3) by (force simp: trimmed_TrimSpace graphic_trimmed)
  then have req: "set (Required ?s) = set required"
    using assms(3) unfolding ObjectSchema_eq by (auto simp: set_required_loop)
  have props: "property_of ?s k = map_option (Canonical U) (map_of params k)" for k
    unfolding ObjectSchema_eq by (simp add: property_of_def map_of_map)
  have string: "conforms v q \<longleftrightarrow> (\<exists>s. v = VStr s)" if "property_of ?s k = Some q" for k v q
  proof -
    from that obtain s where "map_of params k = Some s" "q = Canonical U s" by (auto simp: props)
    then obtain d where "q = Canonical U (str_param d)" using assms(1) by (fastforce dest: map_of_SomeD)
    then show ?thesis by (simp add: canonical_str_param conforms_string_schema)
  qed
  have known: "property_of ?s k = None \<longleftrightarrow> k \<notin> set required" for k
    unfolding props assms(2) by (simp add: map_of_eq_None_iff)
  have closed: "AdditionalProperties ?s = Some False" unfolding ObjectSchema_eq by simp
  show ?thesis
    unfolding c conforms_args_iff string_args_def req closed
    using string known by (auto simp: dom_def subset_iff) (metis known not_None_eq option.distinct(1))+
qed

text \<open>The keys of each built-in tool's arguments.\<close>

definition builtin_arguments :: "(string \<times> string list) list" where
  "builtin_arguments =
     [(''read_file'', [''path'']), (''write_file'', [''path'', ''content'']),
      (''edit_file'', [''path'', ''old_text'', ''new_text'']), (''list_dir'', [''path'']),
      (''execute_code'', [''command'', ''dir''])]"

definition plain_tool :: "unicode \<Rightarrow> string \<Rightarrow> ToolDefinition \<Rightarrow> bool" where
  "plain_tool U name d \<longleftrightarrow>
     (\<exists>desc params required. d = mk_tool U name desc params required \<and> (name, required) \<in> set builtin_arguments \<and>
       (\<forall>(k, s) \<in> set params. s \<in> range str_param) \<and> set required = fst ` set params \<and>
       (\<forall>k \<in> set required. graphic k \<and> k \<noteq> '''') \<and>
       ascii_types (JSONSchema ''object'' '''' (Some params) required None [] None None (Some False)))"

lemma plain_toolE:
  assumes "plain_tool U name d"
  obtains desc params required where "d = mk_tool U name desc params required" "(name, required) \<in> set builtin_arguments"
    "\<forall>(k, s) \<in> set params. s \<in> range str_param" "set required = fst ` set params"
    "\<forall>k \<in> set required. graphic k \<and> k \<noteq> ''''"
    "ascii_types (JSONSchema ''object'' '''' (Some params) required None [] None None (Some False))"
  using assms unfolding plain_tool_def by (elim exE conjE) (rule that)

lemma plain_toolI:
  assumes "(name, required) \<in> set builtin_arguments" "\<forall>(k, s) \<in> set params. s \<in> range str_param"
    and "set required = fst ` set params" "\<forall>k \<in> set required. graphic k \<and> k \<noteq> ''''"
  shows "plain_tool U name (mk_tool U name desc params required)"
proof -
  have "ascii ''string''" "ascii ''object''" by (simp_all add: ascii_def)
  then have "ascii_types (JSONSchema ''object'' '''' (Some params) required None [] None None (Some False))"
    using assms(2) by (fastforce simp: list_all_iff str_param_def)
  with assms show ?thesis unfolding plain_tool_def by blast
qed

lemma builtin_tool:
  assumes "map_of (builtinDefs U) name = Some d"
  shows "plain_tool U name d"
proof -
  have "list_all (\<lambda>(n, d). plain_tool U n d) (builtinDefs U)"
    unfolding builtinDefs_def list.pred_inject prod.case
    by (intro conjI TrueI plain_toolI) (simp_all add: builtin_arguments_def graphic_def)
  then show ?thesis using map_of_SomeD [OF assms] by (auto simp: list_all_iff)
qed

lemma builtin_known: "map_of builtin_arguments name = None \<longleftrightarrow> map_of (builtinDefs U) name = None"
  by (simp add: builtinDefs_def builtin_arguments_def)

lemma builtin_conforms:
  assumes "map_of (builtinDefs U) name = Some d" "map_of builtin_arguments name = Some required"
  shows "conforms_args args (Canonical U (CanonicalSchema L U d)) \<longleftrightarrow> string_args required args"
proof -
  obtain desc params required' where d: "d = mk_tool U name desc params required'" "(name, required') \<in> set builtin_arguments"
    "\<forall>(k, s) \<in> set params. s \<in> range str_param" "set required' = fst ` set params"
    "\<forall>k \<in> set required'. graphic k \<and> k \<noteq> ''''"
    "ascii_types (JSONSchema ''object'' '''' (Some params) required' None [] None None (Some False))"
    by (rule plain_toolE [OF builtin_tool [OF assms(1)]])
  have "distinct (map fst builtin_arguments)" by (simp add: builtin_arguments_def)
  then have "required' = required" using d(2) assms(2) by (metis map_of_is_SomeI option.inject)
  with conforms_mk_tool [OF d(3-6)] d(1) show ?thesis by simp
qed

section \<open>When a call is allowed\<close>

lemma path_gate_None:
  "path_gate h p cwd s = None \<longleftrightarrow> s = '''' \<or> prefix ''-'' s \<or> \<not> looksLikePath h cwd s \<or> EvalPath p cwd s = ''''"
  by (auto simp: path_gate_def)

lemma newPaldron_network:
  "checkNetworkPolicy U (newPaldron L U p) call = None \<longleftrightarrow>
     AllowNetwork p \<or> ToolName call \<notin> set (''execute_code'' # ''git_ops'' # network_tools)"
  using newPaldron_state(2,3) [of L U p]
  by (simp add: checkNetworkPolicy_def hasIsolatedExecution_def)

lemma newPaldron_Check:
  "Check U (newPaldron L U p) (Some call) = None \<longleftrightarrow>
     (AllowNetwork p \<or> ToolName call \<notin> set (''execute_code'' # ''git_ops'' # network_tools)) \<and>
     (\<forall>names. map_of builtin_arguments (ToolName call) = Some names \<longrightarrow> string_args names (Args call)) \<and>
     (\<forall>(k, v) \<in> set (Args call). \<forall>s. v = VStr s \<longrightarrow> harmless U [] s) \<and> validateToolSemantics call = None"
proof -
  let ?g = "newPaldron L U p" and ?n = "ToolName call"
  have "(\<forall>sch. schemas ?g ?n = Some sch \<longrightarrow> conforms_args (Args call) (Canonical U sch)) \<longleftrightarrow>
      (\<forall>names. map_of builtin_arguments ?n = Some names \<longrightarrow> string_args names (Args call))"
  proof (cases "map_of (builtinDefs U) ?n")
    case None
    then show ?thesis using builtin_known [of ?n U] by (simp add: newPaldron_state)
  next
    case (Some d)
    then obtain names where names: "map_of builtin_arguments ?n = Some names"
      using builtin_known [of ?n U] by fastforce
    have "Canonical U (Canonical U (CanonicalSchema L U d)) = Canonical U (CanonicalSchema L U d)"
    proof -
      obtain desc params required where d: "d = mk_tool U ?n desc params required"
        "ascii_types (JSONSchema ''object'' '''' (Some params) required None [] None None (Some False))"
        by (rule plain_toolE [OF builtin_tool [OF Some]])
      show ?thesis
        unfolding d(1) CanonicalSchema_def mk_tool_def ObjectSchema_def
        by (simp only: ToolDefinition.simps option.case canon.idem [OF d(2)])
    qed
    with Some names builtin_conforms [OF Some names] show ?thesis by (simp add: newPaldron_state)
  qed
  moreover have "EnableGuardrails (cfg ?g)" "BlockedCommands (cfg ?g) = []" by (simp_all add: newPaldron_state)
  ultimately show ?thesis unfolding Check_None newPaldron_network by (simp only: simp_thms)
qed

lemma runCheck_allow:
  "runCheck L U h p toolName rawArgs = allow \<longleftrightarrow>
     (\<exists>args cwd. decode_args L rawArgs = Some args \<and> Getwd h = Some cwd \<and>
        Check U (newPaldron L U p) (Some \<lparr>ToolName = toolName, Args = args\<rparr>) = None \<and>
        (\<forall>(k, v) \<in> set args. \<forall>s. v = VStr s \<longrightarrow> path_gate h p cwd s = None))"
proof -
  have loop: "first_error (\<lambda>(key, val). case val of VStr s \<Rightarrow> path_gate h p cwd s | _ \<Rightarrow> None) args = None \<longleftrightarrow>
      (\<forall>(k, v) \<in> set args. \<forall>s. v = VStr s \<longrightarrow> path_gate h p cwd s = None)" for args cwd
    unfolding first_error_None by (rule ball_cong) (auto split: goval.splits)
  show ?thesis
    unfolding runCheck_def loop [symmetric] by (simp split: option.splits)
qed

lemma looksLikePath_abs: "IsAbs s \<Longrightarrow> looksLikePath h cwd s"
  by (simp add: looksLikePath_def)

lemma abs_not_flag: "IsAbs s \<Longrightarrow> s \<noteq> '''' \<and> \<not> prefix ''-'' s"
  by (auto simp: IsAbs_def prefix_def)

section \<open>Properties\<close>

text \<open>
  Property C7: \<^verbatim>\<open>paldron check\<close> exits with 0 exactly when the arguments are a JSON object, the
  policy's network setting admits the tool, a built-in tool gets exactly its arguments, all of
  them strings, no string holds a suspicious pattern, the rules of the tool are met, and the
  policy lets through every string that looks like a path. No order of the arguments matters.
\<close>
theorem check_allows_iff:
  "runCheck L U h p toolName rawArgs = allow \<longleftrightarrow>
     (\<exists>args cwd. decode_args L rawArgs = Some args \<and> Getwd h = Some cwd \<and>
        (AllowNetwork p \<or> toolName \<notin> set (''execute_code'' # ''git_ops'' # network_tools)) \<and>
        (\<forall>names. map_of builtin_arguments toolName = Some names \<longrightarrow> string_args names args) \<and>
        (\<forall>(k, v) \<in> set args. \<forall>s. v = VStr s \<longrightarrow>
           harmless U [] s \<and>
           (s = '''' \<or> prefix ''-'' s \<or> \<not> looksLikePath h cwd s \<or> EvalPath p cwd s = '''')) \<and>
        validateToolSemantics \<lparr>ToolName = toolName, Args = args\<rparr> = None)"
proof -
  have "(\<forall>(k, v) \<in> set args. \<forall>s. v = VStr s \<longrightarrow> harmless U [] s \<and> G s) \<longleftrightarrow>
      (\<forall>(k, v) \<in> set args. \<forall>s. v = VStr s \<longrightarrow> harmless U [] s) \<and>
      (\<forall>(k, v) \<in> set args. \<forall>s. v = VStr s \<longrightarrow> G s)" for args and G :: "string \<Rightarrow> bool"
    by blast
  note split = this
  show ?thesis
    unfolding runCheck_allow newPaldron_Check split path_gate_None [symmetric] ToolCall.simps
    by (simp only: conj_assoc conj_left_commute conj_commute)
qed

text \<open>
  Property C8: an allowed call of \<^verbatim>\<open>read_file\<close>, \<^verbatim>\<open>write_file\<close> or \<^verbatim>\<open>edit_file\<close> names an absolute path
  inside the workspace that no deny or secret glob matches and an allowed directory covers, or
  the empty path.
\<close>
theorem check_confines_files:
  assumes "runCheck L U h p toolName rawArgs = allow" "toolName \<in> {''write_file'', ''edit_file'', ''read_file''}"
    and "Getwd h = Some cwd" "workspace cwd"
  shows "\<exists>args path. decode_args L rawArgs = Some args \<and> map_of args ''path'' = Some (VStr path) \<and>
     (path = '''' \<or>
      IsAbs path \<and> below cwd path \<and>
      (\<forall>g \<in> set (DenyGlobs p @ DefaultSecretGlobs). \<not> globMatch g (path_of (ws_elems cwd path))) \<and>
      (AllowPaths p = [] \<or> (\<exists>d \<in> set (AllowPaths p). dir_covers d (ws_elems cwd path))))"
proof -
  from assms(1,3) obtain args where args: "decode_args L rawArgs = Some args"
    "Check U (newPaldron L U p) (Some \<lparr>ToolName = toolName, Args = args\<rparr>) = None"
    "\<forall>(k, v) \<in> set args. \<forall>s. v = VStr s \<longrightarrow> path_gate h p cwd s = None"
    unfolding runCheck_allow by auto
  obtain names where names: "map_of builtin_arguments toolName = Some names" "''path'' \<in> set names"
    using assms(2) by (auto simp: builtin_arguments_def)
  have "string_args names args" and sem: "validateToolSemantics \<lparr>ToolName = toolName, Args = args\<rparr> = None"
    using args(2) names(1) unfolding newPaldron_Check by simp_all
  then obtain path where path: "map_of args ''path'' = Some (VStr path)"
    using names(2) unfolding string_args_def by (metis domD)
  have "path = '''' \<or> IsAbs path"
    using sem assms(2) path by (simp add: validateToolSemantics_def string_arg_def Let_def split: if_splits)
  moreover have "EvalPath p cwd path = ''''" if "IsAbs path"
    using args(3) map_of_SomeD [OF path] path_gate_None [of h p cwd path]
      looksLikePath_abs [OF that] abs_not_flag [OF that] by auto
  ultimately show ?thesis
    using args(1) path unfolding EvalPath_Nil [OF assms(4)] by metis
qed

definition check_host :: host where
  "check_host = \<lparr>Getwd = Some ''/w'', UserHomeDir = None, Environ = [], EvalSymlinks = Some, StatDir = \<lambda>_. None,
     ExecutableBit = \<lambda>_. False, MkdirTemp = None, WriteFile = \<lambda>_ _. False, GOOS = ''linux'', Quote = id\<rparr>"

definition check_lib :: "(string \<times> json) list \<Rightarrow> json_lib" where
  "check_lib kvs = \<lparr>json_parse = \<lambda>_. Some (JObj kvs), json_float = \<lambda>_. None\<rparr>"

lemma check_workspace: "workspace ''/w''" "clean_elems ''/w'' = [''w'']"
  by (simp_all add: workspace_def IsAbs_def Clean_def clean_elems_def)

lemma graphic_ascii: "graphic s \<Longrightarrow> ascii s"
  by (auto simp: graphic_def ascii_def list_all_iff)

lemma harmless_plain:
  "graphic s \<Longrightarrow> \<forall>pat \<in> {''../'', ''~/.ssh'', ''/etc/''}. \<not> sublist pat (map lower_byte s) \<Longrightarrow> harmless U [] s"
  by (simp add: harmless_def trimmed_TrimSpace graphic_trimmed ToLower_ascii_map graphic_ascii)

lemma check_reads: "runCheck (check_lib [(''path'', JStr ''/w/a'')]) ascii_only check_host DefaultPolicy ''read_file'' '''' = allow"
proof -
  let ?L = "check_lib [(''path'', JStr ''/w/a'')]"
  have args: "decode_args ?L '''' = Some [(''path'', VStr ''/w/a'')]" by (simp add: decode_args_def check_lib_def)
  have ce: "clean_elems ''/w/a'' = [''w'', ''a'']" by (simp add: clean_elems_def IsAbs_def)
  have abs: "IsAbs ''/w/a''" by (simp add: IsAbs_def)
  have "\<not> list_ex (\<lambda>g. globMatch g (path_of [''a''])) DefaultSecretGlobs"
    by (subst secret_globs) (auto simp: secret_elems_def suffix_def)
  then have "EvalPath DefaultPolicy ''/w'' ''/w/a'' = ''''"
    unfolding EvalPath_Nil [OF check_workspace(1)]
    by (simp add: ws_elems_def abs below_def ce check_workspace(2) DefaultPolicy_def list_ex_iff)
  moreover have "harmless ascii_only [] ''/w/a''"
    by (rule harmless_plain) (simp_all add: graphic_def lower_byte_def sublist_Cons_right prefix_def)
  moreover have "validateToolSemantics \<lparr>ToolName = ''read_file'', Args = [(''path'', VStr ''/w/a'')]\<rparr> = None"
    by (simp add: validateToolSemantics_def string_arg_def Let_def abs)
  moreover have "string_args [''path''] [(''path'', VStr ''/w/a'')]" by (simp add: string_args_def)
  ultimately show ?thesis
    unfolding runCheck_allow newPaldron_Check
    by (simp add: args check_host_def path_gate_None builtin_arguments_def network_tools_def)
qed

theorem check_confines_files_witness:
  "\<exists>path. IsAbs path \<and> below ''/w'' path"
proof -
  have "Getwd check_host = Some ''/w''" by (simp add: check_host_def)
  then obtain args path where "decode_args (check_lib [(''path'', JStr ''/w/a'')]) '''' = Some args"
      "map_of args ''path'' = Some (VStr path)" "path = '''' \<or> IsAbs path \<and> below ''/w'' path"
    using check_confines_files [OF check_reads _ _ check_workspace(1)] by blast
  moreover have "decode_args (check_lib [(''path'', JStr ''/w/a'')]) '''' = Some [(''path'', VStr ''/w/a'')]"
    by (simp add: decode_args_def check_lib_def)
  ultimately show ?thesis by auto
qed

text \<open>
  With the network off, \<^verbatim>\<open>paldron check\<close> refuses every call of \<^verbatim>\<open>execute_code\<close>, whatever
  isolation the host and the policy provide: the guardrail it makes is never told of any.
\<close>
theorem check_refuses_execution:
  assumes "\<not> AllowNetwork p" "decode_args L rawArgs = Some args"
  shows "runCheck L U h p ''execute_code'' rawArgs = deny (ToolRefused ExecNotIsolated)"
proof -
  have "''execute_code'' \<notin> set network_tools" by (simp add: network_tools_def)
  then have "Check U (newPaldron L U p) (Some \<lparr>ToolName = ''execute_code'', Args = args\<rparr>) = Some ExecNotIsolated"
    using assms(1) newPaldron_state(2,3) [of L U p]
    by (simp add: Check_def checkNetworkPolicy_def hasIsolatedExecution_def)
  with assms(2) show ?thesis by (simp add: runCheck_def)
qed

theorem check_refuses_execution_witness:
  "runCheck (check_lib []) ascii_only check_host DefaultPolicy ''execute_code'' ''{}'' = deny (ToolRefused ExecNotIsolated)"
  by (rule check_refuses_execution) (simp_all add: DefaultPolicy_def decode_args_def check_lib_def)

theorem check_allows_iff_witness:
  "string_args [''path''] [(''path'', VStr ''/w/a'')]"
proof -
  have "decode_args (check_lib [(''path'', JStr ''/w/a'')]) '''' = Some [(''path'', VStr ''/w/a'')]"
    by (simp add: decode_args_def check_lib_def)
  moreover obtain args where "decode_args (check_lib [(''path'', JStr ''/w/a'')]) '''' = Some args"
    "\<forall>names. map_of builtin_arguments ''read_file'' = Some names \<longrightarrow> string_args names args"
    using check_reads unfolding check_allows_iff by blast
  ultimately show ?thesis by (simp add: builtin_arguments_def)
qed

text \<open>
  Property C38: the directory tool is not confined like the file tools. Under the default policy
  \<^verbatim>\<open>paldron check\<close> allows \<^verbatim>\<open>list_dir\<close> on the parent of any workspace.
\<close>
theorem check_lists_parent:
  assumes "json_parse L rawArgs = Some (JObj [(''path'', JStr ''..'')])" "Getwd h = Some cwd" "workspace cwd"
  shows "runCheck L U h DefaultPolicy ''list_dir'' rawArgs = allow"
proof -
  have args: "decode_args L rawArgs = Some [(''path'', VStr ''..'')]"
    using assms(1) by (simp add: decode_args_def)
  have rel: "\<not> IsAbs ''..''" "clean_elems ''..'' = [''..'']" by (simp_all add: IsAbs_def clean_elems_def)
  have "\<not> list_ex (\<lambda>g. globMatch g (path_of [''..''])) DefaultSecretGlobs"
    by (subst secret_globs) (auto simp: secret_elems_def suffix_def)
  then have "EvalPath DefaultPolicy cwd ''..'' = ''''"
    unfolding EvalPath_Nil [OF assms(3)] by (simp add: ws_elems_def rel DefaultPolicy_def list_ex_iff)
  moreover have "harmless U [] ''..''"
    by (rule harmless_plain) (simp_all add: graphic_def lower_byte_def sublist_Cons_right prefix_def)
  moreover have "validateToolSemantics \<lparr>ToolName = ''list_dir'', Args = [(''path'', VStr ''..'')]\<rparr> = None"
    by (simp add: validateToolSemantics_def)
  moreover have "string_args [''path''] [(''path'', VStr ''..'')]" by (simp add: string_args_def)
  ultimately show ?thesis
    unfolding runCheck_allow newPaldron_Check
    by (simp add: args assms(2) path_gate_None builtin_arguments_def network_tools_def)
qed

theorem check_lists_parent_witness:
  "runCheck (check_lib [(''path'', JStr ''..'')]) ascii_only check_host DefaultPolicy ''list_dir'' ''{}'' = allow"
  by (rule check_lists_parent [OF _ _ check_workspace(1)]) (simp_all add: check_lib_def check_host_def)

text \<open>
  File contents are judged as paths. When the allowed directories do not cover
  everything, a call is refused as soon as any string argument with a blank in it, the text to
  write included, is not itself below an allowed directory.
\<close>
theorem check_judges_text:
  assumes "decode_args L rawArgs = Some args" "(key, VStr s) \<in> set args" "CHR '' '' \<in> set s" "hd s \<noteq> CHR ''-''"
    and "\<not> IsAbs s" "AllowPaths p \<noteq> []" "\<forall>d \<in> set (AllowPaths p). \<not> dir_covers d (clean_elems s)"
    and "\<And>cwd. Getwd h = Some cwd \<Longrightarrow> workspace cwd"
  shows "runCheck L U h p toolName rawArgs \<noteq> allow"
proof
  assume "runCheck L U h p toolName rawArgs = allow"
  with assms(1) obtain cwd where cwd: "Getwd h = Some cwd"
    "\<forall>(k, v) \<in> set args. \<forall>s. v = VStr s \<longrightarrow> path_gate h p cwd s = None"
    unfolding runCheck_allow by auto
  have "path_gate h p cwd s = None" using cwd(2) assms(2) by blast
  moreover have "looksLikePath h cwd s" using assms(3) by (auto simp: looksLikePath_def ContainsAny_def list_ex_iff)
  moreover have "s \<noteq> ''''" "\<not> prefix ''-'' s" using assms(3,4) by (auto simp: prefix_def)
  ultimately have "EvalPath p cwd s = ''''" by (simp add: path_gate_None)
  then show False
    using assms(5-7) unfolding EvalPath_Nil [OF assms(8) [OF cwd(1)]] by (simp add: ws_elems_def)
qed

theorem check_judges_text_witness:
  "runCheck (check_lib [(''path'', JStr ''/w/src/a''), (''content'', JStr ''hello world'')]) ascii_only check_host
     (DefaultPolicy\<lparr>AllowPaths := [''src'']\<rparr>) ''write_file'' ''{}'' \<noteq> allow"
proof (rule check_judges_text)
  show "decode_args (check_lib [(''path'', JStr ''/w/src/a''), (''content'', JStr ''hello world'')]) ''{}''
      = Some [(''content'', VStr ''hello world''), (''path'', VStr ''/w/src/a'')]"
    by (simp add: decode_args_def check_lib_def)
  have "clean_elems ''src'' = [''src'']" "clean_elems ''hello world'' = [''hello world'']"
    by (simp_all add: clean_elems_def IsAbs_def)
  then show "\<forall>d \<in> set (AllowPaths (DefaultPolicy\<lparr>AllowPaths := [''src'']\<rparr>)). \<not> dir_covers d (clean_elems ''hello world'')"
    by (simp add: dir_covers_def)
  show "workspace cwd" if "Getwd check_host = Some cwd" for cwd
    using that check_workspace by (simp add: check_host_def)
qed (simp_all add: IsAbs_def)

end
