(* ===== verification/Cli.thy ===== *)
theory Cli
  imports Tool_Check Scan Jev Linux_Isolation
begin

text \<open>
  The rest of \<^verbatim>\<open>cmd/paldron/main.go\<close>: \<^verbatim>\<open>paldron exec\<close>, which composes the gate on the arguments, the
  sandbox, the scan of the files and the output verdict, and \<open>main\<close> with its flags and commands.
  What the outside world answers (the child process, the clock, the files after the run, the
  judgment service) is a record.
\<close>

section \<open>Running a command\<close>

record world =
  run_command :: "cmd \<Rightarrow> outcome"
  start_time :: int
  files_after :: "node option"
  judge_post :: "jev_request \<Rightarrow> (string, jev_reply) result"

definition containsFold :: "unicode \<Rightarrow> string list \<Rightarrow> string \<Rightarrow> bool" where
  "containsFold U list s = list_ex (\<lambda>v. EqualFold U v s) list"

definition intOr :: "i64 \<Rightarrow> i64 \<Rightarrow> i64" where
  "intOr v d = (if nonpos v then d else v)"

definition exec_config :: "Policy \<Rightarrow> string \<Rightarrow> SandboxConfig" where
  "exec_config p cwd =
     \<lparr>Enabled_sb = True, RequireOSIsolation_sb = RequireOSIsolation p, AllowNetwork_sb = AllowNetwork p,
      HelperPath_sb = '''', AllowedDirs_sb = [cwd], BlockedPatterns_sb = DenyGlobs p,
      AllowedBinaries_sb = AllowBinaries p, TimeoutSec_sb = intOr (TimeoutSec p) 30,
      MaxOutputBytes_sb = 1024 * 1024, CPUTimeSec_sb = intOr (CPUTimeSec p) defaultCPUTimeSec,
      MaxMemoryBytes_sb = intOr (MaxMemoryMB p) defaultMaxMemoryMB * 1024 * 1024,
      MaxProcesses_sb = intOr (MaxProcesses p) defaultMaxProcesses,
      MaxFileSizeBytes_sb = intOr (MaxFileSizeMB p) defaultMaxFileSizeMB * 1024 * 1024,
      MaxOpenFiles_sb = intOr (MaxOpenFiles p) defaultMaxOpenFiles\<rparr>"

text \<open>The probe before the run: the helper path to use, none when isolation is not required.\<close>

definition isolation_preflight :: "platform \<Rightarrow> Policy \<Rightarrow> (reason, string) result" where
  "isolation_preflight P p =
     (if \<not> RequireOSIsolation p then Inr ''''
      else
        (case helper_path P of
           Inl e \<Rightarrow> Inl (HelperUnavailable e)
         | Inr path \<Rightarrow>
             (case supported P (AllowNetwork p) of
                Some e \<Rightarrow> Inl (IsolationUnavailable e)
              | None \<Rightarrow> Inr path)))"

definition run_verdict ::
    "unicode \<Rightarrow> host \<Rightarrow> world \<Rightarrow> Policy \<Rightarrow> string list \<Rightarrow> string \<Rightarrow> ExecuteResult \<Rightarrow> exit"
where
  "run_verdict U h W p argv cwd res =
     (if Error res \<noteq> '''' then fail (SandboxFailed (Error res))
      else if TimedOut res then fail CommandTimedOut
      else if ExitCode res \<noteq> 0 then fail (CommandExited (ExitCode res))
      else
        let hit = scanOutputs cwd p (start_time W) (files_after W) in
        if hit \<noteq> '''' then deny (OutputRefused hit)
        else
          let refusal = jevOutputVerdict U (JudgeOutput (Getenv h) (judge_post W)) p argv res in
          if refusal \<noteq> '''' then deny (JudgmentRefused refusal)
          else allow)"

definition exec_sandbox :: "Policy \<Rightarrow> string \<Rightarrow> string \<Rightarrow> SandboxConfig" where
  "exec_sandbox p cwd path = NewSandbox ((exec_config p cwd)\<lparr>HelperPath_sb := path\<rparr>)"

definition runExec ::
    "unicode \<Rightarrow> host \<Rightarrow> platform \<Rightarrow> request_json \<Rightarrow> world \<Rightarrow> Policy \<Rightarrow> string list \<Rightarrow> exit"
where
  "runExec U h P J W p argv =
     (if length argv = 0 then fail (Usage ''exec'')
      else
        let bin = Base (argv ! 0) in
        if 0 < length (AllowBinaries p) \<and> \<not> containsFold U (AllowBinaries p) bin then deny (BinaryRefused bin)
        else
          (case Getwd h of
             None \<Rightarrow> fail NoWorkingDirectory
           | Some cwd \<Rightarrow>
               (case first_error (path_gate h p cwd) (tl argv) of
                  Some r \<Rightarrow> deny r
                | None \<Rightarrow>
                    (case isolation_preflight P p of
                       Inl r \<Rightarrow> fail r
                     | Inr path \<Rightarrow>
                         let sb = exec_sandbox p cwd path in
                         if RequireOSIsolation p \<and> \<not> HasOSIsolation P sb then fail IsolationInactive
                         else run_verdict U h W p argv cwd
                           (ExecuteArgs U h P J (run_command W) sb argv cwd)))))"

section \<open>The command line\<close>

definition runSchema :: "unicode \<Rightarrow> (ToolDefinition \<Rightarrow> string option) \<Rightarrow> string \<Rightarrow> exit" where
  "runSchema U marshal tool =
     (case map_of (builtinDefs U) tool of
        None \<Rightarrow> fail (UnknownTool tool)
      | Some def \<Rightarrow> (case marshal def of None \<Rightarrow> fail SchemaNotEncoded | Some out \<Rightarrow> allow))"

definition runVersion :: exit where
  "runVersion = allow"

definition usage :: exit where
  "usage = fail (Usage ''paldron'')"

text \<open>The loop over the arguments after the command; \<open>rest\<close> is what is kept so far.\<close>

fun parse_args :: "string \<Rightarrow> string list \<Rightarrow> string \<Rightarrow> string list \<Rightarrow> (reason, string \<times> string list) result"
where
  "parse_args cmd [] policyPath rest = Inr (policyPath, rest)"
| "parse_args cmd (a # args) policyPath rest =
     (if a = ''--'' then Inr (policyPath, rest @ args)
      else if a = ''--policy'' then
        (case args of
           [] \<Rightarrow> Inl (FlagNeedsValue ''--policy'')
         | v # args' \<Rightarrow> parse_args cmd args' v rest)
      else if HasPrefix a ''--policy='' then parse_args cmd args (TrimPrefix a ''--policy='') rest
      else if cmd = ''schema'' \<and> a = ''--tool'' then
        (case args of
           [] \<Rightarrow> Inl (FlagNeedsValue ''--tool'')
         | v # args' \<Rightarrow> parse_args cmd args' policyPath (rest @ [a, v]))
      else parse_args cmd args policyPath (rest @ [a]))"

text \<open>The tool named after the last \<^verbatim>\<open>--tool\<close> that has something after it.\<close>

fun schema_name :: "string list \<Rightarrow> string \<Rightarrow> string" where
  "schema_name (a # b # rest) name = schema_name (b # rest) (if a = ''--tool'' then b else name)"
| "schema_name _ name = name"

definition load_policy :: "(string \<Rightarrow> string option) \<Rightarrow> toml \<Rightarrow> string \<Rightarrow> (policy_error, Policy) result" where
  "load_policy ReadFile T policyPath =
     (if policyPath \<noteq> '''' then LoadPolicy ReadFile T policyPath else Inr DefaultPolicy)"

definition dispatch ::
    "json_lib \<Rightarrow> unicode \<Rightarrow> host \<Rightarrow> platform \<Rightarrow> request_json \<Rightarrow> (ToolDefinition \<Rightarrow> string option) \<Rightarrow> world \<Rightarrow>
     Policy \<Rightarrow> string \<Rightarrow> string list \<Rightarrow> exit"
where
  "dispatch L U h P J marshal W policy cmd rest =
     (if cmd = ''check'' then
        (if length rest < 1 then fail (Usage ''check'')
         else runCheck L U h policy (rest ! 0) (if 1 < length rest then rest ! 1 else ''{}''))
      else if cmd = ''exec'' then runExec U h P J W policy rest
      else if cmd = ''version'' then runVersion
      else if cmd = ''schema'' then
        (let name = schema_name rest '''' in
         if name = '''' then fail (Usage ''schema'') else runSchema U marshal name)
      else usage)"

text \<open>
  \<open>helper\<close> is the platform's \<^verbatim>\<open>runIsolated\<close>: it comes back with an error or without one, or the
  process has become the command and ends as that does. In the last case \<open>main\<close> gives no exit.
\<close>

datatype helper_end = Returned "string option" | BecameCommand

definition main ::
    "json_lib \<Rightarrow> unicode \<Rightarrow> host \<Rightarrow> platform \<Rightarrow> request_json \<Rightarrow> (ToolDefinition \<Rightarrow> string option) \<Rightarrow> world \<Rightarrow>
     (string \<Rightarrow> string option) \<Rightarrow> toml \<Rightarrow> (isolationRequest \<Rightarrow> helper_end) \<Rightarrow> string list \<Rightarrow> exit option"
where
  "main L U h P J marshal W ReadFile T helper os_args =
     (if IsSandboxHelperInvocation os_args then
        (case RunSandboxHelper J (Returned \<circ> Some) helper os_args of
           Returned (Some e) \<Rightarrow> Some (fail (HelperFailed e))
         | Returned None \<Rightarrow> Some allow
         | BecameCommand \<Rightarrow> None)
      else Some
        (case tl os_args of
           [] \<Rightarrow> usage
         | cmd # args \<Rightarrow>
             (case parse_args cmd args '''' [] of
                Inl r \<Rightarrow> fail r
              | Inr (policyPath, rest) \<Rightarrow>
                  (case load_policy ReadFile T policyPath of
                     Inl e \<Rightarrow> fail (PolicyRefused e)
                   | Inr policy \<Rightarrow> dispatch L U h P J marshal W policy cmd rest))))"

section \<open>When a run is allowed\<close>

lemma preflight_Inr:
  "isolation_preflight P p = Inr path \<longleftrightarrow>
     (if RequireOSIsolation p then helper_path P = Inr path \<and> supported P (AllowNetwork p) = None
      else path = '''')"
  by (auto simp: isolation_preflight_def split: sum.splits option.splits)

lemma exec_sandbox_simps [simp]:
  "RequireOSIsolation_sb (exec_sandbox p cwd path) = RequireOSIsolation p"
  "AllowNetwork_sb (exec_sandbox p cwd path) = AllowNetwork p"
  "HelperPath_sb (exec_sandbox p cwd path) = path"
  "Enabled_sb (exec_sandbox p cwd path)"
  "AllowedDirs_sb (exec_sandbox p cwd path) = [cwd]"
  "AllowedBinaries_sb (exec_sandbox p cwd path) = AllowBinaries p"
  by (simp_all add: exec_sandbox_def NewSandbox_def exec_config_def Let_def)

lemma collect_success:
  "Error (collect s oc) = '''' \<and> \<not> TimedOut (collect s oc) \<and> ExitCode (collect s oc) = 0 \<longleftrightarrow>
     \<not> deadline_exceeded oc \<and> (wait_result oc = None \<or> wait_result oc = Some (ExitError 0))"
  by (auto simp: collect_def Let_def split: option.splits wait_error.splits)

lemma error_result_fails: "Error (error_result e) = e"
  by (simp add: error_result_def)

text \<open>A refusal before the start is never taken for a success: its text is not empty.\<close>

definition speaking :: "platform \<Rightarrow> bool" where
  "speaking P \<longleftrightarrow> (\<forall>t r. darwin_command P t r \<noteq> Inl '''')"

lemma isolated_command_error:
  assumes "isolated_command h P J s parts realDir roots = Inl e" "speaking P"
  shows "e \<noteq> ''''"
proof -
  have "newIsolatedCommand J path r \<noteq> Inl ''''" for path r
    by (auto simp: newIsolatedCommand_def split: option.splits)
  then show ?thesis
    using assms unfolding isolated_command_def speaking_def Let_def bind_result_def
    by (auto split: option.splits sum.splits if_splits)
qed

lemma resolve_dir_error: "resolve_dir h dir = Inl e \<Longrightarrow> e \<noteq> ''''"
  by (auto simp: resolve_dir_def split: option.splits)

lemma prepare_error:
  assumes "prepare U h P J s pc parts dir roots = Inl e" "speaking P"
  shows "e \<noteq> ''''"
proof
  assume "e = ''''"
  with assms(1) have p: "prepare U h P J s pc parts dir roots = Inl ''''" by simp
  then obtain realDir where d: "resolve_dir h dir = Inr realDir" "Enabled_sb s" "dir \<noteq> ''''"
    using resolve_dir_error [of h dir "''''"]
    by (cases "resolve_dir h dir") (auto simp: prepare_def split: if_splits)
  from p d have "isolated_command h P J s parts realDir roots = Inl ''''"
    unfolding prepare_def by (auto simp: bind_result_def split: if_splits sum.splits)
  from isolated_command_error [OF this assms(2)] show False by simp
qed

lemma ExecuteArgs_success:
  assumes "speaking P"
  shows "(let res = ExecuteArgs U h P J Run s (a # as) dir in Error res = '''' \<and> \<not> TimedOut res \<and> ExitCode res = 0) \<longleftrightarrow>
     TrimSpace a \<noteq> '''' \<and>
     (\<exists>c. prepare U h P J s a (a # as) dir (AllowedDirs_sb s) = Inr c \<and> \<not> deadline_exceeded (Run c) \<and>
        (wait_result (Run c) = None \<or> wait_result (Run c) = Some (ExitError 0)))"
proof (cases "TrimSpace a = ''''")
  case True
  then show ?thesis by (simp add: ExecuteArgs_def error_result_def)
next
  case False
  then have run: "ExecuteArgs U h P J Run s (a # as) dir
      = (case prepare U h P J s a (a # as) dir (AllowedDirs_sb s) of
           Inl e \<Rightarrow> error_result e | Inr c \<Rightarrow> collect s (Run c))"
    by (simp add: ExecuteArgs_def executeParts_def)
  show ?thesis
  proof (cases "prepare U h P J s a (a # as) dir (AllowedDirs_sb s)")
    case (Inl e)
    then show ?thesis using prepare_error [OF Inl assms] unfolding run by (simp add: error_result_fails)
  next
    case (Inr c)
    then show ?thesis using False unfolding run Let_def by (simp add: collect_success)
  qed
qed

lemma run_verdict_allow:
  "run_verdict U h W p argv cwd res = allow \<longleftrightarrow>
     Error res = '''' \<and> \<not> TimedOut res \<and> ExitCode res = 0 \<and>
     scanOutputs cwd p (start_time W) (files_after W) = '''' \<and>
     jevOutputVerdict U (JudgeOutput (Getenv h) (judge_post W)) p argv res = ''''"
  by (simp add: run_verdict_def Let_def)

lemma run_prepared:
  assumes "prepare U h P J s a (a # as) dir (AllowedDirs_sb s) = Inr c" "TrimSpace a \<noteq> ''''"
  shows "ExecuteArgs U h P J Run s (a # as) dir = collect s (Run c)"
  using assms by (simp add: ExecuteArgs_def executeParts_def)

lemma runExec_gates:
  "runExec U h P J W p argv = allow \<longleftrightarrow>
     (\<exists>a as cwd path. argv = a # as \<and> (AllowBinaries p = [] \<or> containsFold U (AllowBinaries p) (Base a)) \<and>
        Getwd h = Some cwd \<and> (\<forall>x \<in> set as. path_gate h p cwd x = None) \<and>
        isolation_preflight P p = Inr path \<and> (RequireOSIsolation p \<longrightarrow> HasOSIsolation P (exec_sandbox p cwd path)) \<and>
        run_verdict U h W p argv cwd (ExecuteArgs U h P J (run_command W) (exec_sandbox p cwd path) argv cwd) = allow)"
  unfolding first_error_None [symmetric]
  by (cases argv) (auto simp: runExec_def Let_def split: option.splits sum.splits)

section \<open>The three platforms\<close>

definition linux_platform :: "host \<Rightarrow> linux_host \<Rightarrow> platform" where
  "linux_platform h lh = \<lparr>supported = linux_isolationSupported lh, helper_path = linux_isolationHelperPath lh,
     darwin_command = stub_newDarwinSandboxCommand h\<rparr>"

definition darwin_platform :: "host \<Rightarrow> platform" where
  "darwin_platform h = \<lparr>supported = darwin_isolationSupported h, helper_path = darwin_isolationHelperPath h,
     darwin_command = newDarwinSandboxCommand h\<rparr>"

definition other_platform :: "host \<Rightarrow> platform" where
  "other_platform h = \<lparr>supported = other_isolationSupported (GOOS h), helper_path = other_isolationHelperPath (GOOS h),
     darwin_command = stub_newDarwinSandboxCommand h\<rparr>"

lemma platforms_speak: "speaking (linux_platform h lh)" "speaking (darwin_platform h)" "speaking (other_platform h)"
  by (auto simp: speaking_def linux_platform_def darwin_platform_def other_platform_def
      stub_newDarwinSandboxCommand_def newDarwinSandboxCommand_def Let_def)

lemma Clean_nonempty: "Clean s \<noteq> ''''"
  using join_elems_last [of s] by (simp add: Clean_def)

lemma resolve_dir_nonempty:
  assumes "resolve_dir h dir = Inr realDir" "dir \<noteq> ''''" "\<forall>s r. EvalSymlinks h s = Some r \<longrightarrow> s \<noteq> '''' \<longrightarrow> r \<noteq> ''''"
  shows "realDir \<noteq> ''''"
proof -
  have j: "Join [d, b] \<noteq> ''''" if "d \<noteq> '''' \<or> b \<noteq> ''''" for d b using that Clean_nonempty by (simp add: Join_def)
  obtain absDir where a: "AbsPath h dir = Some absDir" "absDir \<noteq> ''''"
    using assms(1,2) j Clean_nonempty by (auto simp: resolve_dir_def AbsPath_def split: option.splits if_splits)
  have "Dir absDir \<noteq> ''''" by (simp add: Dir_def Clean_nonempty)
  with assms a j show ?thesis by (auto simp: resolve_dir_def split: option.splits)
qed

lemma exec_gates:
  assumes "speaking P"
  shows "runExec U h P J W p argv = allow \<longleftrightarrow>
     (\<exists>a as cwd path c. argv = a # as \<and> TrimSpace a \<noteq> '''' \<and>
        (AllowBinaries p = [] \<or> containsFold U (AllowBinaries p) (Base a)) \<and>
        Getwd h = Some cwd \<and> (\<forall>x \<in> set as. path_gate h p cwd x = None) \<and>
        (if RequireOSIsolation p then helper_path P = Inr path \<and> path \<noteq> '''' \<and> supported P (AllowNetwork p) = None
         else path = '''') \<and>
        prepare U h P J (exec_sandbox p cwd path) a argv cwd [cwd] = Inr c \<and>
        \<not> deadline_exceeded (run_command W c) \<and>
        (wait_result (run_command W c) = None \<or> wait_result (run_command W c) = Some (ExitError 0)) \<and>
        scanOutputs cwd p (start_time W) (files_after W) = '''' \<and>
        jevOutputVerdict U (JudgeOutput (Getenv h) (judge_post W)) p argv
          (collect (exec_sandbox p cwd path) (run_command W c)) = '''')"
    (is "?allow \<longleftrightarrow> ?gates")
proof
  assume ?allow
  then obtain a as cwd path where g: "argv = a # as" "AllowBinaries p = [] \<or> containsFold U (AllowBinaries p) (Base a)"
    "Getwd h = Some cwd" "\<forall>x \<in> set as. path_gate h p cwd x = None" "isolation_preflight P p = Inr path"
    "RequireOSIsolation p \<longrightarrow> HasOSIsolation P (exec_sandbox p cwd path)"
    "run_verdict U h W p argv cwd (ExecuteArgs U h P J (run_command W) (exec_sandbox p cwd path) argv cwd) = allow"
    unfolding runExec_gates by blast
  let ?s = "exec_sandbox p cwd path"
  obtain c where c: "TrimSpace a \<noteq> ''''" "prepare U h P J ?s a argv cwd [cwd] = Inr c"
    "\<not> deadline_exceeded (run_command W c)"
    "wait_result (run_command W c) = None \<or> wait_result (run_command W c) = Some (ExitError 0)"
    using g(7) ExecuteArgs_success [OF assms, of U h J "run_command W" ?s a as cwd]
    unfolding run_verdict_allow g(1) Let_def exec_sandbox_simps by blast
  have "ExecuteArgs U h P J (run_command W) ?s argv cwd = collect ?s (run_command W c)"
    using run_prepared [of U h P J ?s a as cwd c] c(1,2) g(1) by simp
  with g(7) have "scanOutputs cwd p (start_time W) (files_after W) = ''''"
    "jevOutputVerdict U (JudgeOutput (Getenv h) (judge_post W)) p argv (collect ?s (run_command W c)) = ''''"
    unfolding run_verdict_allow by simp_all
  moreover have "if RequireOSIsolation p then helper_path P = Inr path \<and> path \<noteq> '''' \<and> supported P (AllowNetwork p) = None
      else path = ''''"
    using g(5,6) by (simp add: preflight_Inr HasOSIsolation_def split: if_splits)
  ultimately show ?gates using g(1-4) c by blast
next
  assume ?gates
  then obtain a as cwd path c where g: "argv = a # as" "TrimSpace a \<noteq> ''''"
    "AllowBinaries p = [] \<or> containsFold U (AllowBinaries p) (Base a)"
    "Getwd h = Some cwd" "\<forall>x \<in> set as. path_gate h p cwd x = None"
    "if RequireOSIsolation p then helper_path P = Inr path \<and> path \<noteq> '''' \<and> supported P (AllowNetwork p) = None else path = ''''"
    and c: "prepare U h P J (exec_sandbox p cwd path) a argv cwd [cwd] = Inr c"
    "\<not> deadline_exceeded (run_command W c)"
    "wait_result (run_command W c) = None \<or> wait_result (run_command W c) = Some (ExitError 0)"
    and v: "scanOutputs cwd p (start_time W) (files_after W) = ''''"
    "jevOutputVerdict U (JudgeOutput (Getenv h) (judge_post W)) p argv
       (collect (exec_sandbox p cwd path) (run_command W c)) = ''''"
    by blast
  let ?s = "exec_sandbox p cwd path"
  have run: "ExecuteArgs U h P J (run_command W) ?s argv cwd = collect ?s (run_command W c)"
    using run_prepared [of U h P J ?s a as cwd c] c(1) g(1,2) by simp
  have "run_verdict U h W p argv cwd (ExecuteArgs U h P J (run_command W) ?s argv cwd) = allow"
    unfolding run run_verdict_allow using c(2,3) v collect_success by blast
  moreover have "isolation_preflight P p = Inr path" "RequireOSIsolation p \<longrightarrow> HasOSIsolation P ?s"
    using g(6) by (auto simp: preflight_Inr HasOSIsolation_def)
  ultimately show ?allow unfolding runExec_gates using g by blast
qed

text \<open>
  A process that became the program of a request, within the limits and in the directory the
  request asks for; and, when the goroutine has kept its thread, under the ruleset and filter.
\<close>

definition confined_child ::
    "linux_host \<Rightarrow> numbers \<Rightarrow> faults \<Rightarrow> isolationRequest \<Rightarrow> string list \<Rightarrow> proc \<Rightarrow> proc \<Rightarrow> bool"
where
  "confined_child lh N F request as pr q \<longleftrightarrow>
     (\<exists>r path commandPath rs f. validateIsolationPaths lh request = Inr r \<and>
        p_exec q = Some (path, path # as) \<and> p_cwd q = WorkingDir_req r \<and>
        landlock_ruleset (host_after F (WorkingDir_req r)) (r\<lparr>Command_req := path # as\<rparr>) commandPath path = Inr rs \<and>
        seccomp_program (SYS N) (AUDIT N) (GOARCH N) (AllowNetwork_req request) = Inr f \<and>
        (unmoved pr \<longrightarrow> p_nnp q \<and> p_landlock q = rs # p_landlock pr \<and> p_seccomp q = f # p_seccomp pr) \<and>
        (\<forall>(res, v) \<in> set (limit_settings (normalizeResourceLimits (ResourceLimits_req request))).
           p_limits q res = (min v (snd (p_limits pr res)), min v (snd (p_limits pr res)))))"

lemma runIsolated_confined:
  assumes "runIsolated lh N F request pr = (e, q)" "p_exec q \<noteq> p_exec pr" "Command_req request = a # as"
  shows "confined_child lh N F request as pr q"
proof -
  from runIsolated_image [OF assms(1,2)] obtain r path commandPath rs f where
    r: "validateIsolationPaths lh request = Inr r" "p_cwd q = WorkingDir_req r"
    "p_exec q = Some (path, (Command_req r)[0 := path])"
    "landlock_ruleset (host_after F (WorkingDir_req r)) (r\<lparr>Command_req := (Command_req r)[0 := path]\<rparr>) commandPath path
      = Inr rs"
    "seccomp_program (SYS N) (AUDIT N) (GOARCH N) (AllowNetwork_req r) = Inr f"
    "\<forall>(res, v) \<in> set (limit_settings (normalizeResourceLimits (ResourceLimits_req r))).
       p_limits q res = (min v (snd (p_limits pr res)), min v (snd (p_limits pr res)))"
    and rs: "restricted rs f pr q"
    by blast
  have kept: "Command_req r = a # as" "AllowNetwork_req r = AllowNetwork_req request" "ResourceLimits_req r = ResourceLimits_req request"
    using r(1) assms(3) by (auto simp: validateIsolationPaths_def Let_def split: if_splits option.splits)
  have argv: "(Command_req r)[0 := path] = path # as" by (simp add: kept)
  show ?thesis
    using r(1-6) restricted_unmoved [OF rs] unfolding confined_child_def argv kept(2,3) by blast
qed

section \<open>A concrete run\<close>

definition ex_policy :: Policy where
  "ex_policy = DefaultPolicy\<lparr>AllowBinaries := [''ls'']\<rparr>"

definition ex_sandbox :: SandboxConfig where
  "ex_sandbox = exec_sandbox ex_policy ''/w'' ''/proc/self/exe''"

definition ex_world :: world where
  "ex_world = \<lparr>run_command = \<lambda>_. \<lparr>out_pieces = [], err_pieces = [], deadline_exceeded = False, wait_result = None\<rparr>,
     start_time = 0, files_after = None, judge_post = \<lambda>_. Inl ''''\<rparr>"

lemma ToLower_plain: "ascii s \<Longrightarrow> \<forall>c \<in> set s. lower_byte c = c \<Longrightarrow> ToLower U s = s"
  by (simp add: ToLower_ascii_map map_idI)

lemma ex_blacklist: "checkBlacklist U ex_sandbox ''ls'' = ''''"
proof -
  have p: "BlockedPatterns_sb ex_sandbox = coreBlocked"
    by (simp add: ex_sandbox_def exec_sandbox_def NewSandbox_patterns exec_config_def ex_policy_def DefaultPolicy_def)
  have "TrimSpace ''ls'' = ''ls''" by (rule trimmed_TrimSpace, rule graphic_trimmed) (simp add: graphic_def)
  moreover have "ToLower U ''ls'' = ''ls''" by (rule ToLower_plain) (simp_all add: ascii_def lower_byte_def)
  moreover have "\<forall>pat \<in> set coreBlocked. \<not> Contains ''ls'' (ToLower U pat)"
    unfolding coreBlocked_def by (simp add: ToLower_ascii_map ascii_def lower_byte_def sublist_Cons_right)
  ultimately have "find (\<lambda>pat. Contains (ToLower U (TrimSpace ''ls'')) (ToLower U pat)) coreBlocked = None"
    by (simp add: find_None_iff)
  then show ?thesis unfolding checkBlacklist_def p Let_def by simp
qed

lemma ex_base: "Base ''ls'' = ''ls''" "Fields (TrimSpace ''ls'') = [''ls'']"
proof -
  show "Base ''ls'' = ''ls''" by (simp add: Base_def TrimRight_def last_elem_def)
  have "TrimSpace ''ls'' = ''ls''" by (rule trimmed_TrimSpace, rule graphic_trimmed) (simp add: graphic_def)
  then show "Fields (TrimSpace ''ls'') = [''ls'']"
    by (simp add: Fields_def FieldsFunc_def chunks_ascii ascii_def IsSpace_def space_runes_def)
qed

lemma ex_binary: "isBinaryAllowed ex_sandbox ''ls''"
  by (simp add: isBinaryAllowed_def ex_base ex_sandbox_def ex_policy_def)

lemma ex_platform:
  "supported (linux_platform demo_host demo_linux) False = None"
  "helper_path (linux_platform demo_host demo_linux) = Inr ''/proc/self/exe''"
  by (simp_all add: linux_platform_def linux_isolationSupported_def linux_isolationHelperPath_def demo_linux_def)

lemma ex_prepared:
  "\<exists>c. prepare U demo_host (linux_platform demo_host demo_linux) json_codec ex_sandbox ''ls'' [''ls''] ''/w'' [''/w''] = Inr c \<and>
     cmd_dir c = ''/w''"
proof -
  have cl: "clean_elems ''/w'' = [''w'']" by (simp add: clean_elems_def IsAbs_def)
  then have c: "Clean ''/w'' = ''/w''" by (simp add: Clean_def IsAbs_def)
  have "resolve_dir demo_host ''/w'' = Inr ''/w''"
    by (simp add: resolve_dir_def AbsPath_def demo_host_def IsAbs_def c)
  moreover have "isInsideAllowedDir demo_host ex_sandbox ''/w''"
    by (simp add: isInsideAllowedDir_def ex_sandbox_def resolve_allowed_def AbsPath_def demo_host_def IsAbs_def c
        pathWithin_def Rel_def)
  moreover have "\<exists>name args env. isolated_command demo_host (linux_platform demo_host demo_linux) json_codec ex_sandbox
      [''ls''] ''/w'' [''/w''] = Inr ((name, args), env)"
    unfolding isolated_command_Inr
    by (simp add: ex_platform ex_sandbox_def ex_policy_def DefaultPolicy_def newIsolatedCommand_def)
      (simp add: demo_host_def)
  moreover have "Enabled_sb ex_sandbox" "RequireOSIsolation_sb ex_sandbox" "StatDir demo_host ''/w'' = Some True"
    by (simp_all add: ex_sandbox_def ex_policy_def DefaultPolicy_def) (simp add: demo_host_def)
  ultimately show ?thesis
    unfolding prepare_Inr using ex_blacklist [of U] ex_binary by auto
qed

lemma ex_allow:
  "runExec ascii_only demo_host (linux_platform demo_host demo_linux) json_codec ex_world ex_policy [''ls''] = allow"
proof -
  obtain c where "prepare ascii_only demo_host (linux_platform demo_host demo_linux) json_codec ex_sandbox ''ls'' [''ls''] ''/w'' [''/w''] = Inr c"
    using ex_prepared by blast
  moreover have "TrimSpace ''ls'' \<noteq> ''''"
    using trimmed_TrimSpace [OF graphic_trimmed, of "''ls''"] by (simp add: graphic_def)
  ultimately have run: "ExecuteArgs ascii_only demo_host (linux_platform demo_host demo_linux) json_codec (run_command ex_world)
      ex_sandbox [''ls''] ''/w'' = collect ex_sandbox (run_command ex_world c)"
    by (intro run_prepared) (simp_all add: ex_sandbox_def)
  have "Error (collect ex_sandbox (run_command ex_world c)) = '''' \<and> \<not> TimedOut (collect ex_sandbox (run_command ex_world c))
      \<and> ExitCode (collect ex_sandbox (run_command ex_world c)) = 0"
    unfolding collect_success by (simp add: ex_world_def)
  then have "run_verdict ascii_only demo_host ex_world ex_policy [''ls''] ''/w''
      (collect ex_sandbox (run_command ex_world c)) = allow"
    unfolding run_verdict_allow
    by (simp add: ex_world_def scanOutputs_def jevOutputVerdict_def ex_policy_def DefaultPolicy_def)
  moreover have "isolation_preflight (linux_platform demo_host demo_linux) ex_policy = Inr ''/proc/self/exe''"
    unfolding preflight_Inr by (simp add: ex_platform ex_policy_def DefaultPolicy_def)
  moreover have "containsFold ascii_only [''ls''] (Base ''ls'')"
    by (simp add: ex_base containsFold_def EqualFold_refl)
  moreover have "HasOSIsolation (linux_platform demo_host demo_linux) ex_sandbox"
    by (simp add: HasOSIsolation_def ex_sandbox_def ex_platform ex_policy_def DefaultPolicy_def)
  moreover have "Getwd demo_host = Some ''/w''" "AllowBinaries ex_policy = [''ls'']"
    by (simp_all add: demo_host_def ex_policy_def DefaultPolicy_def)
  ultimately show ?thesis
    unfolding runExec_gates run [symmetric] by (auto simp: ex_sandbox_def)
qed

section \<open>How an invocation ends\<close>

fun policy_denial :: "reason \<Rightarrow> bool" where
  "policy_denial (ToolRefused _) = True"
| "policy_denial (PathRefused _ _) = True"
| "policy_denial (BinaryRefused _) = True"
| "policy_denial (OutputRefused _) = True"
| "policy_denial (JudgmentRefused _) = True"
| "policy_denial _ = False"

definition ends_well :: "exit \<Rightarrow> bool" where
  "ends_well e \<longleftrightarrow> e = allow \<or> (\<exists>r. e = fail r) \<or> (\<exists>r. e = deny r \<and> policy_denial r)"

lemma ends_well_simps [simp]: "ends_well allow" "ends_well (fail r)" "ends_well (deny r) \<longleftrightarrow> policy_denial r"
  by (auto simp: ends_well_def fail_def deny_def allow_def)

lemma path_gate_denial: "path_gate h p cwd s = Some r \<Longrightarrow> policy_denial r"
  by (auto simp: path_gate_def split: if_splits)

lemma first_error_SomeE:
  assumes "first_error f xs = Some r" obtains x where "x \<in> set xs" "f x = Some r"
  using assms by (induction xs) (auto split: option.splits)

lemma runCheck_ends: "ends_well (runCheck L U h p toolName rawArgs)"
proof -
  have "policy_denial r"
    if "first_error (\<lambda>(key, val). case val of VStr s \<Rightarrow> path_gate h p cwd s | _ \<Rightarrow> None) args = Some r" for cwd args r
    using that by (rule first_error_SomeE) (auto split: goval.splits dest: path_gate_denial)
  then show ?thesis by (auto simp: runCheck_def split: option.splits)
qed

lemma run_verdict_ends: "ends_well (run_verdict U h W p argv cwd res)"
  by (simp add: run_verdict_def Let_def)

lemma runExec_ends: "ends_well (runExec U h P J W p argv)"
proof -
  have "policy_denial r" if "first_error (path_gate h p cwd) args = Some r" for cwd args r
    using that by (rule first_error_SomeE) (rule path_gate_denial)
  then show ?thesis
    by (auto simp: runExec_def Let_def run_verdict_ends split: option.splits sum.splits)
qed

lemma runSchema_allow: "runSchema U marshal tool = allow \<Longrightarrow> tool \<in> fst ` set (builtinDefs U)"
  by (cases "map_of (builtinDefs U) tool") (auto simp: runSchema_def dest: map_of_SomeD intro: rev_image_eqI)

lemma runSchema_ends: "runSchema U marshal tool = allow \<or> (\<exists>r. runSchema U marshal tool = fail r)"
  by (auto simp: runSchema_def split: option.splits)

lemma not_denied: "runVersion \<noteq> deny r" "usage \<noteq> deny r" "runSchema U marshal tool \<noteq> deny r" "fail r' \<noteq> deny r"
  using runSchema_ends [of U marshal tool]
  by (auto simp: runVersion_def usage_def fail_def deny_def allow_def)

lemma dispatch_ends: "ends_well (dispatch L U h P J marshal W policy cmd rest)"
  using runSchema_ends [of U marshal "schema_name rest ''''"]
  unfolding dispatch_def Let_def
  by (auto simp: runCheck_ends runExec_ends runVersion_def usage_def)

lemma dispatch_deny:
  "dispatch L U h P J marshal W policy cmd rest = deny r \<Longrightarrow> cmd = ''check'' \<or> cmd = ''exec''"
  unfolding dispatch_def Let_def by (metis not_denied)

section \<open>Properties\<close>

text \<open>
  Property C2: \<^verbatim>\<open>paldron exec\<close> exits with 0 exactly when every gate is passed: the binary is in the
  list, every other argument passes the path gate, isolation is available when it is required,
  the sandbox prepares the command in the workspace, its run ends in time and with status zero,
  the scan finds no offending file and the output is not refused.
\<close>
theorem exec_allows_iff:
  assumes "speaking P"
  shows "runExec U h P J W p argv = allow \<longleftrightarrow>
     (\<exists>a as cwd path c. argv = a # as \<and> TrimSpace a \<noteq> '''' \<and>
        (AllowBinaries p = [] \<or> containsFold U (AllowBinaries p) (Base a)) \<and>
        Getwd h = Some cwd \<and> (\<forall>x \<in> set as. path_gate h p cwd x = None) \<and>
        (if RequireOSIsolation p then helper_path P = Inr path \<and> path \<noteq> '''' \<and> supported P (AllowNetwork p) = None
         else path = '''') \<and>
        prepare U h P J (exec_sandbox p cwd path) a argv cwd [cwd] = Inr c \<and>
        \<not> deadline_exceeded (run_command W c) \<and>
        (wait_result (run_command W c) = None \<or> wait_result (run_command W c) = Some (ExitError 0)) \<and>
        scanOutputs cwd p (start_time W) (files_after W) = '''' \<and>
        jevOutputVerdict U (JudgeOutput (Getenv h) (judge_post W)) p argv
          (collect (exec_sandbox p cwd path) (run_command W c)) = '''')"
  using assms by (rule exec_gates)

theorem exec_allows_iff_witness:
  "\<exists>path c. prepare ascii_only demo_host (linux_platform demo_host demo_linux) json_codec (exec_sandbox ex_policy ''/w'' path)
     ''ls'' [''ls''] ''/w'' [''/w''] = Inr c"
proof -
  have "Getwd demo_host = Some ''/w''" by (simp add: demo_host_def)
  then show ?thesis using ex_allow unfolding exec_allows_iff [OF platforms_speak(1)] by auto
qed

text \<open>
  Property C14: required isolation is never skipped. When the platform does not support it or
  names no helper, \<^verbatim>\<open>paldron exec\<close> does not exit with 0 and its result does not depend on what a
  child process would do; so it is on every system but Linux and macOS.
\<close>
theorem exec_requires_isolation:
  assumes "RequireOSIsolation p"
  shows "(supported P (AllowNetwork p) \<noteq> None \<or> helper_path P = Inr '''' \<or> (\<exists>e. helper_path P = Inl e) \<longrightarrow>
      exit_status (runExec U h P J W p argv) \<noteq> 0 \<and> runExec U h P J W p argv = runExec U h P J W' p argv) \<and>
    exit_status (runExec U h (other_platform h) J W p argv) \<noteq> 0"
proof -
  have stop: "exit_status (runExec U h P J W p argv) \<noteq> 0 \<and> runExec U h P J W p argv = runExec U h P J W' p argv"
    if no: "supported P (AllowNetwork p) \<noteq> None \<or> helper_path P = Inr '''' \<or> (\<exists>e. helper_path P = Inl e)" for P
  proof -
    have "isolation_preflight P p = Inr path \<longrightarrow> \<not> HasOSIsolation P (exec_sandbox p cwd path)" for path cwd
      using no assms by (auto simp: preflight_Inr HasOSIsolation_def)
    then show ?thesis
      using assms unfolding runExec_def Let_def by (auto split: option.splits sum.splits)
  qed
  moreover have "supported (other_platform h) (AllowNetwork p) \<noteq> None"
    by (simp add: other_platform_def other_isolationSupported_def)
  ultimately show ?thesis by blast
qed

theorem exec_requires_isolation_witness:
  "exit_status (runExec ascii_only demo_host (other_platform demo_host) json_codec ex_world DefaultPolicy [''ls'']) \<noteq> 0"
proof -
  have "RequireOSIsolation DefaultPolicy" by (simp add: DefaultPolicy_def)
  from exec_requires_isolation [OF this] show ?thesis by blast
qed


text \<open>The request of the concrete run, as the helper validates it.\<close>

lemma ex_validated:
  assumes "request = coerce_request (isolation_request demo_host (exec_sandbox ex_policy ''/w'' ''/proc/self/exe'')
     [''/w''] ''/tmp/x'' ''/w'' [''ls''])"
  shows "\<exists>r. validateIsolationPaths demo_linux request = Inr r \<and> demo_valid r"
proof -
  have caches: "readOnlyDependencyCaches demo_host = []"
  proof -
    have home: "cargoHome demo_host = Join [''/home/u'', ''.cargo'']" "rustupHome demo_host = Join [''/home/u'', ''.rustup'']"
      by (simp_all add: cargoHome_def rustupHome_def demo_host_def Getenv_def env_key_def)
    have join: "Join [''/home/u'', ''.cargo''] = ''/home/u/.cargo''" "Join [''/home/u'', ''.rustup''] = ''/home/u/.rustup''"
      "Join [''/home/u/.cargo'', ''registry''] = ''/home/u/.cargo/registry''"
      "Join [''/home/u/.rustup'', ''toolchains''] = ''/home/u/.rustup/toolchains''"
      by (simp_all add: Join_def Clean_def clean_elems_def IsAbs_def)
    have "StatDir demo_host p = (if p = ''/w'' then Some True else None)" for p by (simp add: demo_host_def)
    then show ?thesis unfolding readOnlyDependencyCaches_def home join Let_def by simp
  qed
  have fields: "AllowedDirs_req request = [''/w'', ''/tmp/x'']" "ReadOnlyDirs_req request = []" "WorkingDir_req request = ''/w''"
    "Command_req request = [''ls'']" "\<not> AllowNetwork_req request"
    unfolding assms by (simp_all add: isolation_request_def caches ascii_def ex_policy_def DefaultPolicy_def)
  have "pathWithin ''/w'' ''/w''" by (simp add: pathWithin_def Rel_def demo_clean IsAbs_def)
  moreover have "AbsPath demo_linux ''/w'' = Some ''/w''" by (simp add: AbsPath_def IsAbs_def demo_clean)
  moreover have "EvalSymlinks demo_linux ''/w'' = Some ''/w''" by (simp add: demo_linux_def)
  ultimately show ?thesis
    using fields by (simp add: validateIsolationPaths_def canonicalExistingPaths_def demo_canonical demo_valid_def Let_def)
qed


text \<open>Mebibytes to bytes in 64-bit arithmetic: the product wraps before it is compared with zero.\<close>

lemma sint_mebibytes: "sint (v * 1024 * 1024 :: i64) = signed_take_bit 63 (sint v * 1048576)"
proof -
  have "v * 1024 * 1024 = v * 1048576" by (simp add: mult.assoc)
  moreover have "sint (v * 1048576) = signed_take_bit 63 (sint v * sint (1048576 :: i64))"
    by (simp add: sint_word_ariths)
  moreover have "sint (1048576 :: i64) = 1048576" by simp
  ultimately show ?thesis by (simp only:)
qed

text \<open>
  Property C32: the limits in bytes are the policy's mebibytes times 2 to the 20th, in signed
  64-bit arithmetic that wraps around: exact below 2 to the 43rd mebibytes, and beyond that
  whatever the low bits give, with the sandbox's own default where they give no positive number.
\<close>
theorem exec_limit_bytes:
  "let mb = (if sint (MaxMemoryMB p) \<le> 0 then 8192 else sint (MaxMemoryMB p));
       bytes = signed_take_bit 63 (mb * 2 ^ 20)
   in sint (MaxMemoryBytes_sb (exec_sandbox p cwd path)) = (if bytes \<le> 0 then 8 * 2 ^ 30 else bytes) \<and>
      (mb < 2 ^ 43 \<longrightarrow> bytes = mb * 2 ^ 20) \<and>
      (MaxMemoryMB p = 2 ^ 43 \<longrightarrow> bytes \<le> 0) \<and> (MaxMemoryMB p = 2 ^ 44 + 1 \<longrightarrow> bytes = 2 ^ 20)"
proof -
  define mb where "mb = (if sint (MaxMemoryMB p) \<le> 0 then 8192 else sint (MaxMemoryMB p))"
  have or: "sint (intOr (MaxMemoryMB p) defaultMaxMemoryMB) = mb"
    by (simp add: intOr_def nonpos_def mb_def defaultMaxMemoryMB_def)
  have "MaxMemoryBytes_sb (exec_sandbox p cwd path)
      = or_default (intOr (MaxMemoryMB p) defaultMaxMemoryMB * 1024 * 1024) defaultSandboxMaxMemoryBytes"
    by (simp add: exec_sandbox_def NewSandbox_def exec_config_def Let_def)
  moreover have "sint (or_default (intOr (MaxMemoryMB p) defaultMaxMemoryMB * 1024 * 1024) defaultSandboxMaxMemoryBytes)
      = (if signed_take_bit 63 (mb * 1048576) \<le> 0 then sint defaultSandboxMaxMemoryBytes
         else signed_take_bit 63 (mb * 1048576))"
    unfolding or_default_def nonpos_def sint_mebibytes or by (simp only: sint_mebibytes or if_distrib [of sint])
  moreover have "sint defaultSandboxMaxMemoryBytes = 8 * 2 ^ 30" by (simp add: defaultSandboxMaxMemoryBytes_def)
  moreover have "(1048576 :: int) = 2 ^ 20" by simp
  ultimately have "sint (MaxMemoryBytes_sb (exec_sandbox p cwd path))
      = (if signed_take_bit 63 (mb * 2 ^ 20) \<le> 0 then 8 * 2 ^ 30 else signed_take_bit 63 (mb * 2 ^ 20))"
    by (simp only:)
  moreover have "signed_take_bit 63 (mb * 2 ^ 20) = mb * 2 ^ 20" if "mb < 2 ^ 43"
  proof (rule signed_take_bit_int_eq_self)
    have "0 < mb" by (simp add: mb_def)
    then show "- (2 ^ 63) \<le> mb * 2 ^ 20" by simp
    show "mb * 2 ^ 20 < 2 ^ 63" using that by simp
  qed
  moreover have "signed_take_bit 63 (mb * 2 ^ 20) \<le> 0" if "MaxMemoryMB p = 2 ^ 43"
    using that by (simp add: mb_def signed_take_bit_int_eq_self)
  moreover have "signed_take_bit 63 (mb * 2 ^ 20) = 2 ^ 20" if "MaxMemoryMB p = 2 ^ 44 + 1"
    using that by (simp add: mb_def)
  ultimately show ?thesis unfolding Let_def mb_def by blast
qed

theorem exec_limit_bytes_witness:
  "sint (MaxMemoryBytes_sb (exec_sandbox (DefaultPolicy\<lparr>MaxMemoryMB := 2 ^ 44 + 1\<rparr>) ''/w'' '''')) = 2 ^ 20"
  using exec_limit_bytes [of "DefaultPolicy\<lparr>MaxMemoryMB := 2 ^ 44 + 1\<rparr>" "''/w''" "''''"] by (simp add: Let_def)

text \<open>
  A listed binary has to be listed exactly. The command line compares with
  \<^verbatim>\<open>allow_binaries\<close> up to case, the sandbox again with the name as it is spelled; an allowed run
  passed both, so another capitalisation is admitted by the gate and then refused by the sandbox.
\<close>
theorem exec_binary_exact:
  assumes "runExec U h P J W p argv = allow" "AllowBinaries p \<noteq> []" "speaking P"
  shows "\<exists>word words. Fields (TrimSpace (hd argv)) = word # words \<and> Base word \<in> set (AllowBinaries p) \<and>
     (\<exists>v \<in> set (AllowBinaries p). EqualFold U v (Base (hd argv)))"
proof -
  from assms(1) obtain a as cwd path c where g: "argv = a # as"
    "AllowBinaries p = [] \<or> containsFold U (AllowBinaries p) (Base a)"
    "prepare U h P J (exec_sandbox p cwd path) a argv cwd [cwd] = Inr c"
    using exec_gates [OF assms(3)] by blast
  have "isBinaryAllowed (exec_sandbox p cwd path) a"
    using g(3) assms(2) unfolding prepare_Inr exec_sandbox_simps by blast
  then show ?thesis
    using g(1,2) assms(2) by (auto simp: isBinaryAllowed_def containsFold_def list_ex_iff Let_def split: list.splits)
qed

theorem exec_binary_exact_witness:
  "\<exists>word words. Fields (TrimSpace ''ls'') = word # words \<and> Base word \<in> {''ls''}"
proof -
  have "AllowBinaries ex_policy = [''ls'']" by (simp add: ex_policy_def)
  then show ?thesis using exec_binary_exact [OF ex_allow _ platforms_speak(1)] by auto
qed

text \<open>
  Property C31: what stands after \<^verbatim>\<open>--\<close> is never read as a flag. When the arguments before it parse
  to a policy and a rest, the arguments after it are appended to the rest as they are, policy
  flags among them included.
\<close>
theorem parse_args_separator:
  assumes "parse_args cmd before policyPath rest = Inr (policyPath', rest')" "''--'' \<notin> set before"
  shows "parse_args cmd (before @ ''--'' # after) policyPath rest = Inr (policyPath', rest' @ after)"
  using assms
proof (induction cmd before policyPath rest rule: parse_args.induct)
  case (2 cmd a args policyPath rest)
  have a: "a \<noteq> ''--''" and args: "''--'' \<notin> set args" using "2.prems"(2) by auto
  consider "a = ''--policy''" | "a \<noteq> ''--policy''" "HasPrefix a ''--policy=''"
    | "a \<noteq> ''--policy''" "\<not> HasPrefix a ''--policy=''" "cmd = ''schema'' \<and> a = ''--tool''"
    | "a \<noteq> ''--policy''" "\<not> HasPrefix a ''--policy=''" "\<not> (cmd = ''schema'' \<and> a = ''--tool'')"
    by argo
  then show ?case
  proof cases
    case 1
    with "2.prems"(1) a obtain v args' where v: "args = v # args'" by (cases args) simp_all
    with "2.IH"(1) [OF a 1 v] "2.prems"(1) args a 1 show ?thesis by simp
  next
    case 2
    with "2.IH"(2) [OF a 2] "2.prems"(1) args a show ?thesis by simp
  next
    case 3
    with "2.prems"(1) a obtain v args' where v: "args = v # args'" by (cases args) simp_all
    with "2.IH"(3) [OF a 3 v] "2.prems"(1) args a 3 show ?thesis by simp
  next
    case 4
    with "2.IH"(4) [OF a 4] "2.prems"(1) args a show ?thesis by (cases "cmd = ''schema''") simp_all
  qed
qed simp

theorem parse_args_separator_witness:
  "parse_args ''exec'' ([''--policy'', ''p.toml''] @ ''--'' # [''ls'', ''--policy'', ''q.toml'']) '''' []
     = Inr (''p.toml'', [] @ [''ls'', ''--policy'', ''q.toml''])"
  by (rule parse_args_separator) simp_all

text \<open>
  Property C29: the program allows only under a policy it could read. If it exits with 0 and is
  not the helper, then the policy is the default one or a file that loads, and the command is the
  version, a known tool's schema, an allowed check or an allowed run under that very policy.
\<close>
theorem main_allows:
  assumes "main L U h P J marshal W ReadFile T helper os_args = Some allow" "\<not> IsSandboxHelperInvocation os_args"
  shows "\<exists>cmd args policyPath rest policy. tl os_args = cmd # args \<and>
     parse_args cmd args '''' [] = Inr (policyPath, rest) \<and>
     (if policyPath = '''' then policy = DefaultPolicy else LoadPolicy ReadFile T policyPath = Inr policy) \<and>
     (cmd = ''version'' \<or>
      cmd = ''schema'' \<and> schema_name rest '''' \<in> fst ` set (builtinDefs U) \<or>
      cmd = ''check'' \<and> rest \<noteq> [] \<and> runCheck L U h policy (rest ! 0) (if 1 < length rest then rest ! 1 else ''{}'') = allow \<or>
      cmd = ''exec'' \<and> runExec U h P J W policy rest = allow)"
proof -
  obtain cmd args where cmd: "tl os_args = cmd # args"
    using assms by (cases "tl os_args") (auto simp: main_def usage_def)
  then obtain policyPath rest where parse: "parse_args cmd args '''' [] = Inr (policyPath, rest)"
    using assms by (cases "parse_args cmd args '''' []") (auto simp: main_def)
  then obtain policy where load: "load_policy ReadFile T policyPath = Inr policy"
    using assms cmd by (cases "load_policy ReadFile T policyPath") (auto simp: main_def)
  have run: "dispatch L U h P J marshal W policy cmd rest = allow"
    using assms cmd parse load by (simp add: main_def)
  have "if policyPath = '''' then policy = DefaultPolicy else LoadPolicy ReadFile T policyPath = Inr policy"
    using load unfolding load_policy_def by (cases "policyPath = ''''") simp_all
  moreover have "cmd = ''version'' \<or>
      cmd = ''schema'' \<and> schema_name rest '''' \<in> fst ` set (builtinDefs U) \<or>
      cmd = ''check'' \<and> rest \<noteq> [] \<and> runCheck L U h policy (rest ! 0) (if 1 < length rest then rest ! 1 else ''{}'') = allow \<or>
      cmd = ''exec'' \<and> runExec U h P J W policy rest = allow"
  proof -
    consider "cmd = ''check''" | "cmd \<noteq> ''check''" "cmd = ''exec''" | "cmd \<noteq> ''check''" "cmd \<noteq> ''exec''" "cmd = ''version''"
      | "cmd \<noteq> ''check''" "cmd \<noteq> ''exec''" "cmd \<noteq> ''version''" "cmd = ''schema''"
      | "cmd \<noteq> ''check''" "cmd \<noteq> ''exec''" "cmd \<noteq> ''version''" "cmd \<noteq> ''schema''" by argo
    then show ?thesis
    proof cases
      case 1
      with run show ?thesis by (cases rest) (auto simp: dispatch_def)
    next
      case 2
      with run show ?thesis by (simp add: dispatch_def)
    next
      case 3
      then show ?thesis by simp
    next
      case 4
      with run show ?thesis by (auto simp: dispatch_def Let_def dest: runSchema_allow split: if_splits)
    next
      case 5
      with run show ?thesis by (simp add: dispatch_def usage_def)
    qed
  qed
  ultimately show ?thesis using cmd parse by blast
qed

theorem main_allows_witness:
  "runExec ascii_only demo_host (linux_platform demo_host demo_linux) json_codec ex_world ex_policy [''ls''] = allow"
proof -
  let ?T = "\<lparr>toml_keys = \<lambda>_. Some [], toml_into = \<lambda>_ _. Some ex_policy\<rparr>"
  let ?args = "[''paldron'', ''exec'', ''--policy=p'', ''--'', ''ls'']"
  have load: "LoadPolicy (\<lambda>_. Some '''') ?T ''p'' = Inr ex_policy"
    by (simp add: LoadPolicy_def ex_policy_def DefaultPolicy_def zero_float64_def)
  have main: "main (check_lib []) ascii_only demo_host (linux_platform demo_host demo_linux) json_codec (\<lambda>_. None) ex_world
      (\<lambda>_. Some '''') ?T (\<lambda>_. BecameCommand) ?args = Some allow"
    using ex_allow load by (simp add: main_def IsSandboxHelperInvocation_def load_policy_def dispatch_def TrimPrefix_def)
  have "\<not> IsSandboxHelperInvocation ?args" by (simp add: IsSandboxHelperInvocation_def)
  from main_allows [OF main this] obtain cmd args policyPath rest policy where r: "tl ?args = cmd # args"
     "parse_args cmd args '''' [] = Inr (policyPath, rest)" "if policyPath = '''' then policy = DefaultPolicy else
        LoadPolicy (\<lambda>_. Some '''') ?T policyPath = Inr policy"
     "cmd = ''version'' \<or> cmd = ''schema'' \<and> schema_name rest '''' \<in> fst ` set (builtinDefs ascii_only) \<or>
      cmd = ''check'' \<and> rest \<noteq> [] \<and> runCheck (check_lib []) ascii_only demo_host policy (rest ! 0) (if 1 < length rest then rest ! 1 else ''{}'') = allow \<or>
      cmd = ''exec'' \<and> runExec ascii_only demo_host (linux_platform demo_host demo_linux) json_codec ex_world policy rest = allow"
    by blast
  from r(1) have c: "cmd = ''exec''" "args = [''--policy=p'', ''--'', ''ls'']" by simp_all
  with r(2) have "policyPath = ''p''" "rest = [''ls'']" by (simp_all add: TrimPrefix_def)
  with c r(3,4) load show ?thesis by simp
qed

text \<open>
  Property C30: every invocation that does not become the command of a helper request ends with one
  of the statuses 0, 1 and 2; status 2 is only given by \<^verbatim>\<open>check\<close> and \<^verbatim>\<open>exec\<close>, outside the helper,
  and then for a refusal by the policy; everything else that goes wrong is 1.
\<close>
theorem main_status:
  "case main L U h P J marshal W ReadFile T helper os_args of
     None \<Rightarrow> IsSandboxHelperInvocation os_args \<and> (\<exists>request. helper request = BecameCommand)
   | Some e \<Rightarrow>
       (e = allow \<or> (\<exists>r. e = fail r) \<or> (\<exists>r. e = deny r \<and> policy_denial r)) \<and>
       exit_status e \<in> {0, 1, 2} \<and>
       (exit_status e = 2 \<longrightarrow> \<not> IsSandboxHelperInvocation os_args \<and> (\<exists>args. tl os_args = ''check'' # args \<or> tl os_args = ''exec'' # args))"
proof (cases "main L U h P J marshal W ReadFile T helper os_args")
  case None
  then have "IsSandboxHelperInvocation os_args \<and> (\<exists>request. helper request = BecameCommand)"
    by (auto simp: main_def RunSandboxHelper_def split: if_splits helper_end.splits option.splits)
  with None show ?thesis by simp
next
  case (Some e)
  have ends: "ends_well e"
    using Some by (auto simp: main_def usage_def dispatch_ends split: if_splits helper_end.splits option.splits list.splits sum.splits)
  then have status: "exit_status e \<in> {0, 1, 2}" by (auto simp: ends_well_def)
  have cmds: "\<not> IsSandboxHelperInvocation os_args \<and> (\<exists>args. tl os_args = ''check'' # args \<or> tl os_args = ''exec'' # args)"
    if two: "exit_status e = 2"
  proof -
    obtain r where r: "e = deny r" using ends two by (auto simp: ends_well_def)
    then have "\<not> IsSandboxHelperInvocation os_args"
      using Some by (auto simp: main_def fail_def deny_def allow_def split: option.splits helper_end.splits if_splits)
    moreover from this r Some obtain cmd args policy rest where "tl os_args = cmd # args"
        "dispatch L U h P J marshal W policy cmd rest = deny r"
      by (auto simp: main_def not_denied split: list.splits sum.splits)
    ultimately show ?thesis using dispatch_deny by metis
  qed
  show ?thesis unfolding Some using ends status cmds by (simp add: ends_well_def)
qed

theorem main_status_witness:
  "exit_status (the (main (check_lib []) ascii_only demo_host (linux_platform demo_host demo_linux) json_codec (\<lambda>_. None) ex_world
      (\<lambda>_. None) \<lparr>toml_keys = \<lambda>_. None, toml_into = \<lambda>_ _. None\<rparr> (\<lambda>_. BecameCommand) [''paldron'', ''bogus''])) \<in> {0, 1}"
proof -
  let ?args = "[''paldron'', ''bogus'']"
  have "\<not> IsSandboxHelperInvocation ?args" by (simp add: IsSandboxHelperInvocation_def)
  then show ?thesis
    using main_status [where L = "check_lib []" and U = ascii_only and h = demo_host and
        P = "linux_platform demo_host demo_linux" and J = json_codec and marshal = "\<lambda>_. None" and W = ex_world and
        ReadFile = "\<lambda>_. None" and T = "\<lparr>toml_keys = \<lambda>_. None, toml_into = \<lambda>_ _. None\<rparr>" and
        helper = "\<lambda>_. BecameCommand" and os_args = ?args]
    by (auto split: option.splits)
qed

end
